theory Spec2Isabelle
  imports
    Main
    "HOL-Library.Word"
    "HOL-Library.Char_ord"
    "HOL-Library.List_Lexorder"
    "HOL-Library.Multiset"
begin

unbundle bit_operations_syntax

section \<open>MiniGit: hashing, commit objects and file reading\<close>

text \<open>
  A shallow embedding of \<^verbatim>\<open>Hashing.cpp\<close>, \<^verbatim>\<open>Commit.cpp\<close> / \<^verbatim>\<open>Commit.h\<close> and
  \<^verbatim>\<open>FileUtils::readFromFile\<close>. A \<^verbatim>\<open>std::string\<close> is a \<^typ>\<open>string\<close> (a list of bytes),
  \<^verbatim>\<open>unsigned int\<close> is a 32-bit word, a thrown \<^verbatim>\<open>std::runtime_error\<close> is the left summand
  of the result. With \<^verbatim>\<open>Char_ord\<close> and \<^verbatim>\<open>List_Lexorder\<close> the order on \<^typ>\<open>string\<close> is
  the lexicographic order on unsigned bytes, which is what \<^verbatim>\<open>std::string::operator<\<close>
  computes.
\<close>

abbreviation NL :: char where
  "NL \<equiv> CHR 0x0A"

subsection \<open>Hashing.cpp\<close>

definition FNV_PRIME :: "32 word" where
  "FNV_PRIME = 16777619"

definition FNV_OFFSET_BASIS :: "32 word" where
  "FNV_OFFSET_BASIS = 2166136261"

text \<open>The loop \<^verbatim>\<open>for (char c : content) { hash ^= (unsigned char) c; hash *= FNV_PRIME; }\<close>,
  started at \<open>hash\<close>.\<close>

fun fnv_loop :: "32 word \<Rightarrow> string \<Rightarrow> 32 word" where
  "fnv_loop hash [] = hash"
| "fnv_loop hash (c # content) = fnv_loop ((hash XOR of_char c) * FNV_PRIME) content"

text \<open>\<^verbatim>\<open>ss << std::hex << hash\<close>: the digits of the number in base 16, lowercase, most
  significant first, no leading zero (one digit for 0).\<close>

definition hex_digit :: "nat \<Rightarrow> char" where
  "hex_digit d = ''0123456789abcdef'' ! d"

function to_hex :: "nat \<Rightarrow> string" where
  "to_hex n = (if n < 16 then [hex_digit n] else to_hex (n div 16) @ [hex_digit (n mod 16)])"
  by pat_completeness auto
termination
  by (relation "measure id") auto

declare to_hex.simps [simp del]

text \<open>\<^verbatim>\<open>std::setw(w) << std::setfill(c)\<close>: an output shorter than \<open>w\<close> is padded on the left.\<close>

definition setw_fill :: "nat \<Rightarrow> char \<Rightarrow> string \<Rightarrow> string" where
  "setw_fill w c s = replicate (w - length s) c @ s"

definition Hashing_calculateHash :: "string \<Rightarrow> string" where
  "Hashing_calculateHash content =
     setw_fill 8 CHR ''0'' (to_hex (unat (fnv_loop FNV_OFFSET_BASIS content)))"

text \<open>The reference the specification names, written over natural numbers with the
  reduction modulo \<open>2 ^ 32\<close> spelled out, and the number a string of hexadecimal digits
  denotes. Both are specification-side definitions: the code above is compared with them.\<close>

definition fnv1a_32_reference :: "nat list \<Rightarrow> nat" where
  "fnv1a_32_reference bytes =
     foldl (\<lambda>h b. ((h XOR b) * 16777619) mod 2 ^ 32) 2166136261 bytes"

definition hex_digit_value :: "char \<Rightarrow> nat" where
  "hex_digit_value c =
     (if CHR ''0'' \<le> c \<and> c \<le> CHR ''9'' then of_char c - 48
      else if CHR ''a'' \<le> c \<and> c \<le> CHR ''f'' then of_char c - 87
      else 0)"

definition hex_value :: "string \<Rightarrow> nat" where
  "hex_value s = foldl (\<lambda>n c. 16 * n + hex_digit_value c) 0 s"

definition lowercase_hex :: "string \<Rightarrow> bool" where
  "lowercase_hex s = list_all (\<lambda>c. c \<in> set ''0123456789abcdef'') s"

subsection \<open>Commit.h: the commit object\<close>

text \<open>The \<^verbatim>\<open>std::unordered_map\<close> of the snapshot is an association list in the map's
  iteration order, which the standard leaves unspecified; its keys are distinct.\<close>

type_synonym unordered_map = "(string \<times> string) list"

record CommitNode =
  hash :: string
  parentHashes :: "string list"
  message :: string
  timestamp :: string
  fileBlobs :: unordered_map

text \<open>\<^verbatim>\<open>m[k] = v\<close>: the value of an existing key is replaced, a new key gets a new entry.\<close>

fun umap_assign :: "string \<Rightarrow> string \<Rightarrow> unordered_map \<Rightarrow> unordered_map" where
  "umap_assign k v [] = [(k, v)]"
| "umap_assign k v ((k', v') # m) =
     (if k' = k then (k, v) # m else (k', v') # umap_assign k v m)"

subsection \<open>Commit.cpp\<close>

text \<open>The default constructor.\<close>

definition CommitNode_default :: CommitNode where
  "CommitNode_default =
     \<lparr>hash = '''', parentHashes = [], message = '''', timestamp = '''', fileBlobs = []\<rparr>"

text \<open>The copy of the map into a vector, sorted by \<^verbatim>\<open>a.first < b.first\<close>. The keys of a
  map are distinct, so every correct sorting algorithm returns the same vector.\<close>

definition sortedFileBlobs :: "unordered_map \<Rightarrow> (string \<times> string) list" where
  "sortedFileBlobs fb = sort_key fst fb"

text \<open>The stream \<^verbatim>\<open>contentToHash\<close> that \<^verbatim>\<open>CommitNode::calculateHash\<close> fills.\<close>

definition contentToHash :: "CommitNode \<Rightarrow> string" where
  "contentToHash c =
     ''commit'' @ [NL] @
     ''message:'' @ message c @ [NL] @
     ''timestamp:'' @ timestamp c @ [NL] @
     concat (map (\<lambda>parent. ''parent:'' @ parent @ [NL]) (parentHashes c)) @
     ''tree:'' @ [NL] @
     concat (map (\<lambda>entry. ''  '' @ fst entry @ '' '' @ snd entry @ [NL])
       (sortedFileBlobs (fileBlobs c)))"

definition calculateHash :: "CommitNode \<Rightarrow> string" where
  "calculateHash c = Hashing_calculateHash (contentToHash c)"

text \<open>The constructor. \<^verbatim>\<open>generateTimestamp()\<close> reads the clock; its result is the
  parameter \<open>now\<close>.\<close>

definition CommitNode_new ::
  "string \<Rightarrow> string list \<Rightarrow> unordered_map \<Rightarrow> string \<Rightarrow> CommitNode" where
  "CommitNode_new msg parents blobs now =
     (let c = \<lparr>hash = '''', parentHashes = parents, message = msg, timestamp = now,
                fileBlobs = blobs\<rparr>
      in c\<lparr>hash := calculateHash c\<rparr>)"

definition serialize :: "CommitNode \<Rightarrow> string" where
  "serialize c =
     ''type:commit'' @ [NL] @
     ''hash:'' @ hash c @ [NL] @
     ''message:'' @ message c @ [NL] @
     ''timestamp:'' @ timestamp c @ [NL] @
     concat (map (\<lambda>parent. ''parent:'' @ parent @ [NL]) (parentHashes c)) @
     concat (map (\<lambda>entry. ''file:'' @ fst entry @ '' '' @ snd entry @ [NL])
       (sortedFileBlobs (fileBlobs c)))"

datatype error = runtime_error string

text \<open>\<^verbatim>\<open>std::getline(ss, line)\<close>: fails at the end of the input; otherwise the line is the
  text up to the next newline (or the end), and the newline is consumed.\<close>

definition getline :: "string \<Rightarrow> (string \<times> string) option" where
  "getline ss =
     (if ss = [] then None
      else Some (takeWhile (\<lambda>c. c \<noteq> NL) ss, drop 1 (dropWhile (\<lambda>c. c \<noteq> NL) ss)))"

text \<open>\<^verbatim>\<open>line.rfind(p, 0) == 0\<close>, \<^verbatim>\<open>line.substr(n)\<close> and \<^verbatim>\<open>s.find(c)\<close> (\<open>None\<close> is
  \<^verbatim>\<open>npos\<close>).\<close>

definition starts_with :: "string \<Rightarrow> string \<Rightarrow> bool" where
  "starts_with line p = (take (length p) line = p)"

definition substr :: "string \<Rightarrow> nat \<Rightarrow> string" where
  "substr line n = drop n line"

fun find_char :: "char \<Rightarrow> string \<Rightarrow> nat option" where
  "find_char c [] = None"
| "find_char c (x # xs) = (if x = c then Some 0 else map_option Suc (find_char c xs))"

text \<open>The state of the loop of \<^verbatim>\<open>deserialize\<close>: the commit being filled,
  \<^verbatim>\<open>deserializedParentHashes\<close> and \<^verbatim>\<open>deserializedFileBlobs\<close>.\<close>

type_synonym dstate = "CommitNode \<times> string list \<times> unordered_map"

text \<open>The body of the loop, for one line.\<close>

definition deserialize_line :: "string \<Rightarrow> dstate \<Rightarrow> error + dstate" where
  "deserialize_line line st =
     (case st of (commit, parents, blobs) \<Rightarrow>
        if starts_with line ''type:'' then
          (if substr line 5 \<noteq> ''commit''
           then Inl (runtime_error
                  (''Deserialization error: Expected type:commit, got '' @ substr line 5))
           else Inr st)
        else if starts_with line ''hash:'' then
          Inr (commit\<lparr>hash := substr line 5\<rparr>, parents, blobs)
        else if starts_with line ''message:'' then
          Inr (commit\<lparr>message := substr line 8\<rparr>, parents, blobs)
        else if starts_with line ''timestamp:'' then
          Inr (commit\<lparr>timestamp := substr line 10\<rparr>, parents, blobs)
        else if starts_with line ''parent:'' then
          Inr (commit, parents @ [substr line 7], blobs)
        else if starts_with line ''file:'' then
          (let fileEntry = substr line 5 in
           case find_char CHR '' '' fileEntry of
             None \<Rightarrow> Inl (runtime_error
               ''Deserialization error: Invalid file entry format in commit.'')
           | Some spacePos \<Rightarrow>
               Inr (commit, parents,
                 umap_assign (take spacePos fileEntry) (drop (spacePos + 1) fileEntry) blobs))
        else Inr st)"

function deserialize_loop :: "string \<Rightarrow> dstate \<Rightarrow> error + dstate" where
  "deserialize_loop ss st =
     (case getline ss of
        None \<Rightarrow> Inr st
      | Some (line, ss') \<Rightarrow>
          (case deserialize_line line st of
             Inl e \<Rightarrow> Inl e
           | Inr st' \<Rightarrow> deserialize_loop ss' st'))"
  by pat_completeness auto
termination
proof (relation "measure (\<lambda>(ss, st). length ss)")
  show "wf (measure (\<lambda>(ss, st). length ss))"
    by simp
next
  fix ss :: string and st :: dstate and x2 line ss' st'
  assume "getline ss = Some x2" and "(line, ss') = x2"
  then have ne: "ss \<noteq> []" and ss': "ss' = drop 1 (dropWhile (\<lambda>c. c \<noteq> NL) ss)"
    by (auto simp: getline_def split: if_splits)
  have "length ss' < length ss"
  proof (cases "dropWhile (\<lambda>c. c \<noteq> NL) ss")
    case Nil
    with ne ss' show ?thesis by simp
  next
    case (Cons a as)
    have "length (dropWhile (\<lambda>c. c \<noteq> NL) ss) \<le> length ss"
      by (rule length_dropWhile_le)
    with Cons ss' show ?thesis by simp
  qed
  then show "((ss', st'), (ss, st)) \<in> measure (\<lambda>(ss, st). length ss)"
    by simp
qed

declare deserialize_loop.simps [simp del]

definition deserialize :: "string \<Rightarrow> error + CommitNode" where
  "deserialize content =
     (case deserialize_loop content (CommitNode_default, [], []) of
        Inl e \<Rightarrow> Inl e
      | Inr (commit, parents, blobs) \<Rightarrow>
          Inr (commit\<lparr>parentHashes := parents, fileBlobs := blobs\<rparr>))"

subsection \<open>FileUtils.cpp: \<^verbatim>\<open>readFromFile\<close>\<close>

text \<open>What the file system answers for the file name at the time of the call: whether
  the path exists, whether it is a regular file, whether the stream opens, the bytes the
  stream delivers, and the size \<^verbatim>\<open>fs::file_size\<close> reports.\<close>

record file_env =
  fs_exists :: bool
  fs_is_regular_file :: bool
  stream_is_open :: bool
  stream_bytes :: string
  fs_file_size :: nat

datatype diagnostic =
    ERROR_does_not_exist
  | ERROR_not_a_regular_file
  | ERROR_failed_to_open
  | WARNING_read_as_empty

text \<open>The result is the returned \<^verbatim>\<open>bool\<close>, the value left in the reference parameter
  \<^verbatim>\<open>content\<close>, and what was written to \<^verbatim>\<open>std::cerr\<close>.\<close>

definition readFromFile :: "file_env \<Rightarrow> bool \<times> string \<times> diagnostic list" where
  "readFromFile env =
     (if \<not> fs_exists env then (False, '''', [ERROR_does_not_exist])
      else if \<not> fs_is_regular_file env then (False, '''', [ERROR_not_a_regular_file])
      else if \<not> stream_is_open env then (False, '''', [ERROR_failed_to_open])
      else
        (let content = stream_bytes env in
         if content = [] \<and> fs_file_size env > 0
         then (True, content, [WARNING_read_as_empty])
         else (True, content, [])))"

subsection \<open>Notions used to state the properties\<close>

text \<open>All the lines that successive calls of \<^verbatim>\<open>std::getline\<close> deliver for an input, and
  the loop of \<^verbatim>\<open>deserialize\<close> over a list of lines; both are related to the code above
  in the proofs below.\<close>

fun getlines :: "string \<Rightarrow> string list" where
  "getlines [] = []"
| "getlines (c # cs) =
     (if c = NL then [] # getlines cs
      else (case getlines cs of [] \<Rightarrow> [[c]] | l # ls \<Rightarrow> (c # l) # ls))"

fun deserialize_lines :: "string list \<Rightarrow> dstate \<Rightarrow> error + dstate" where
  "deserialize_lines [] st = Inr st"
| "deserialize_lines (line # ls) st =
     (case deserialize_line line st of
        Inl e \<Rightarrow> Inl e
      | Inr st' \<Rightarrow> deserialize_lines ls st')"

text \<open>The pieces of a text between its newlines (at least one piece).\<close>

fun splitnl :: "string \<Rightarrow> string list" where
  "splitnl [] = [[]]"
| "splitnl (c # cs) =
     (if c = NL then [] # splitnl cs
      else (case splitnl cs of [] \<Rightarrow> [[c]] | l # ls \<Rightarrow> (c # l) # ls))"

text \<open>The lines that \<^verbatim>\<open>serialize\<close> and \<^verbatim>\<open>calculateHash\<close> write, each of which they
  terminate by a newline.\<close>

definition stored_lines :: "CommitNode \<Rightarrow> string list" where
  "stored_lines c =
     [''type:commit'', ''hash:'' @ hash c, ''message:'' @ message c,
      ''timestamp:'' @ timestamp c] @
     map (\<lambda>parent. ''parent:'' @ parent) (parentHashes c) @
     map (\<lambda>entry. ''file:'' @ fst entry @ '' '' @ snd entry) (sortedFileBlobs (fileBlobs c))"

definition hash_input_lines :: "CommitNode \<Rightarrow> string list" where
  "hash_input_lines c =
     [''commit'', ''message:'' @ message c, ''timestamp:'' @ timestamp c] @
     map (\<lambda>parent. ''parent:'' @ parent) (parentHashes c) @
     [''tree:''] @
     map (\<lambda>entry. ''  '' @ (fst entry @ '' '' @ snd entry)) (sortedFileBlobs (fileBlobs c))"

text \<open>The two kinds of line on which \<^verbatim>\<open>deserialize\<close> throws.\<close>

definition bad_type_line :: "string \<Rightarrow> bool" where
  "bad_type_line line = (starts_with line ''type:'' \<and> substr line 5 \<noteq> ''commit'')"

definition bad_file_line :: "string \<Rightarrow> bool" where
  "bad_file_line line = (starts_with line ''file:'' \<and> CHR '' '' \<notin> set (substr line 5))"

definition accepted_line :: "string \<Rightarrow> bool" where
  "accepted_line line = (\<not> bad_type_line line \<and> \<not> bad_file_line line)"

text \<open>The field rules of the text encoding: no newline in the message, the timestamp, a
  parent identifier, a path or a blob identifier, no space in a path; the keys of the
  snapshot are distinct, as in every \<^verbatim>\<open>std::unordered_map\<close>.\<close>

definition well_formed_entry :: "string \<times> string \<Rightarrow> bool" where
  "well_formed_entry entry =
     (NL \<notin> set (fst entry) \<and> CHR '' '' \<notin> set (fst entry) \<and> NL \<notin> set (snd entry))"

definition well_formed :: "CommitNode \<Rightarrow> bool" where
  "well_formed c =
     (NL \<notin> set (message c) \<and> NL \<notin> set (timestamp c) \<and>
      list_all (\<lambda>parent. NL \<notin> set parent) (parentHashes c) \<and>
      list_all well_formed_entry (fileBlobs c) \<and>
      distinct (map fst (fileBlobs c)))"

section \<open>Properties of the hash\<close>

subsection \<open>The accumulator as a number\<close>

lemma unat_of_char32: "unat (of_char c :: 32 word) = of_char c"
proof -
  have "(of_char c :: 32 word) = of_nat (of_char c)"
    by (simp add: of_nat_of_char)
  then have "unat (of_char c :: 32 word) = of_char c mod 2 ^ 32"
    by (simp add: unat_of_nat)
  moreover have "(of_char c :: nat) < 2 ^ 32"
    by (rule less_trans [OF nat_of_char_less_256]) simp
  ultimately show ?thesis by simp
qed

lemma fnv_step_unat:
  "unat ((h XOR of_char c) * FNV_PRIME) = ((unat h XOR of_char c) * 16777619) mod 2 ^ 32"
  by (simp add: FNV_PRIME_def unat_word_ariths unat_of_char32 unsigned_xor_eq)

lemma fnv_loop_unat:
  "unat (fnv_loop h s) = foldl (\<lambda>h b. ((h XOR b) * 16777619) mod 2 ^ 32) (unat h) (map of_char s)"
proof (induction s arbitrary: h)
  case Nil
  show ?case by simp
next
  case (Cons c s)
  show ?case
    by (simp only: fnv_loop.simps Cons.IH fnv_step_unat list.map foldl_Cons)
qed

lemma less_16_cases:
  "d < 16 \<Longrightarrow> d \<in> {0, 1, 2, 3, 4, 5, 6, 7, 8, 9, 10, 11, 12, 13, 14, 15 :: nat}"
  by auto arith

lemma hex_digit_value_hex_digit: "d < 16 \<Longrightarrow> hex_digit_value (hex_digit d) = d"
  by (drule less_16_cases) (auto simp: hex_digit_def hex_digit_value_def less_eq_char_def)

lemma hex_digit_lower: "d < 16 \<Longrightarrow> hex_digit d \<in> set ''0123456789abcdef''"
  by (drule less_16_cases) (auto simp: hex_digit_def)

lemma to_hex_lower: "set (to_hex n) \<subseteq> set ''0123456789abcdef''"
proof (induction n rule: to_hex.induct)
  case (1 n)
  show ?case
  proof (cases "n < 16")
    case True
    then show ?thesis
      using hex_digit_lower [of n] by (subst to_hex.simps) simp
  next
    case False
    have "n mod 16 < 16" by simp
    then have "hex_digit (n mod 16) \<in> set ''0123456789abcdef''"
      by (rule hex_digit_lower)
    with False "1.IH" show ?thesis
      by (subst to_hex.simps) simp
  qed
qed

lemma hex_value_snoc: "hex_value (s @ [c]) = 16 * hex_value s + hex_digit_value c"
  by (simp add: hex_value_def)

lemma hex_value_to_hex: "hex_value (to_hex n) = n"
proof (induction n rule: to_hex.induct)
  case (1 n)
  show ?case
  proof (cases "n < 16")
    case True
    then show ?thesis
      by (subst to_hex.simps) (simp add: hex_value_def hex_digit_value_hex_digit)
  next
    case False
    have "hex_value (to_hex (n div 16) @ [hex_digit (n mod 16)]) = 16 * (n div 16) + n mod 16"
      using False "1.IH" by (simp only: hex_value_snoc hex_digit_value_hex_digit) (simp add: hex_digit_value_hex_digit)
    with False show ?thesis
      by (subst to_hex.simps) simp
  qed
qed

lemma length_to_hex: "n < 16 ^ k \<Longrightarrow> 0 < k \<Longrightarrow> length (to_hex n) \<le> k"
proof (induction n arbitrary: k rule: to_hex.induct)
  case (1 n)
  show ?case
  proof (cases "n < 16")
    case True
    with "1.prems" show ?thesis
      by (subst to_hex.simps) simp
  next
    case False
    from "1.prems" False obtain j where k: "k = Suc j"
      by (cases k) auto
    with "1.prems" False have j: "0 < j"
      by (cases j) auto
    from "1.prems" k have "n div 16 < 16 ^ j"
      by (simp add: less_mult_imp_div_less mult.commute)
    with "1.IH" [OF False _ j] have "length (to_hex (n div 16)) \<le> j"
      by simp
    with False k show ?thesis
      by (subst to_hex.simps) simp
  qed
qed

lemma hex_value_zeros: "hex_value (replicate k CHR ''0'' @ s) = hex_value s"
proof -
  have "foldl (\<lambda>n c. 16 * n + hex_digit_value c) 0 (replicate k CHR ''0'') = 0"
    by (induction k) (simp_all add: hex_digit_value_def)
  then show ?thesis
    by (simp add: hex_value_def)
qed

lemma length_setw_fill: "length s \<le> w \<Longrightarrow> length (setw_fill w c s) = w"
  by (simp add: setw_fill_def)

lemma length_Hashing_calculateHash: "length (Hashing_calculateHash s) = 8"
proof -
  have "unat (fnv_loop FNV_OFFSET_BASIS s) < 2 ^ 32"
    using unsigned_less [of "fnv_loop FNV_OFFSET_BASIS s"] by simp
  then have "unat (fnv_loop FNV_OFFSET_BASIS s) < 16 ^ 8"
    by simp
  then have "length (to_hex (unat (fnv_loop FNV_OFFSET_BASIS s))) \<le> 8"
    by (rule length_to_hex) simp
  then show ?thesis
    unfolding Hashing_calculateHash_def by (rule length_setw_fill)
qed

lemma hex_value_Hashing_calculateHash:
  "hex_value (Hashing_calculateHash s) = unat (fnv_loop FNV_OFFSET_BASIS s)"
  by (simp add: Hashing_calculateHash_def setw_fill_def hex_value_zeros hex_value_to_hex)

lemma lowercase_hex_Hashing_calculateHash: "lowercase_hex (Hashing_calculateHash s)"
proof -
  have "set (Hashing_calculateHash s) \<subseteq> set ''0123456789abcdef''"
    unfolding Hashing_calculateHash_def setw_fill_def
    using to_hex_lower [of "unat (fnv_loop FNV_OFFSET_BASIS s)"] by auto
  then show ?thesis
    unfolding lowercase_hex_def list_all_iff by blast
qed

lemma NL_notin_Hashing_calculateHash: "NL \<notin> set (Hashing_calculateHash s)"
proof
  assume "NL \<in> set (Hashing_calculateHash s)"
  with lowercase_hex_Hashing_calculateHash [of s] have "NL \<in> set ''0123456789abcdef''"
    unfolding lowercase_hex_def list_all_iff by blast
  then show False
    by simp
qed

text \<open>
  Claim C5. \<^verbatim>\<open>Hashing::calculateHash\<close> is a function of the bytes alone: equal inputs
  give equal identifiers. The identifier has exactly 8 characters, all of them lowercase
  hexadecimal digits, and the number they denote is the 32-bit FNV-1a accumulator of the
  bytes (offset basis 2166136261, prime 16777619, XOR then multiply, reduced modulo
  \<open>2 ^ 32\<close>). Here \<^verbatim>\<open>unsigned int\<close> is taken to be 32 bits wide.
\<close>

theorem Hashing_calculateHash_fnv1a:
  assumes "b1 = b2"
  shows "Hashing_calculateHash b1 = Hashing_calculateHash b2
    \<and> length (Hashing_calculateHash b1) = 8
    \<and> lowercase_hex (Hashing_calculateHash b1)
    \<and> hex_value (Hashing_calculateHash b1) = fnv1a_32_reference (map of_char b1)"
proof -
  have "unat (fnv_loop FNV_OFFSET_BASIS b1) = fnv1a_32_reference (map of_char b1)"
    by (simp only: fnv_loop_unat fnv1a_32_reference_def) (simp add: FNV_OFFSET_BASIS_def)
  with assms show ?thesis
    by (simp only: length_Hashing_calculateHash lowercase_hex_Hashing_calculateHash
        hex_value_Hashing_calculateHash)
qed

theorem Hashing_calculateHash_fnv1a_witness:
  "length (Hashing_calculateHash ''foobar'') = 8
   \<and> lowercase_hex (Hashing_calculateHash ''foobar'')
   \<and> hex_value (Hashing_calculateHash ''foobar'') = fnv1a_32_reference (map of_char ''foobar'')"
  by (rule Hashing_calculateHash_fnv1a [OF refl, THEN conjunct2])

subsection \<open>Evaluating the hash of a literal\<close>

lemma fnv_loop_append: "fnv_loop h (xs @ ys) = fnv_loop (fnv_loop h xs) ys"
  by (induction xs arbitrary: h) simp_all

lemma fnv_loop_concat: "fnv_loop h (concat css) = foldl fnv_loop h css"
  by (induction css arbitrary: h) (simp_all add: fnv_loop_append)

lemma Hashing_calculateHash_value:
  "fnv_loop FNV_OFFSET_BASIS s = v \<Longrightarrow>
   Hashing_calculateHash s = setw_fill 8 CHR ''0'' (to_hex (unat v))"
  by (simp add: Hashing_calculateHash_def)

text \<open>
  Claim C2. The commit constructed from the message \<open>init\<close>, no parents, the snapshot
  \<open>{a.txt \<mapsto> deadbeef}\<close> and the clock reading \<open>2024-01-01T00:00:00\<close> has as identifier
  the fingerprint of the literal string of the scenario, which is \<open>45a12172\<close>.
\<close>

theorem CommitNode_new_init_vector:
  "hash (CommitNode_new ''init'' [] [(''a.txt'', ''deadbeef'')] ''2024-01-01T00:00:00'') =
     Hashing_calculateHash (''commit'' @ [NL] @ ''message:init'' @ [NL] @ ''timestamp:2024-01-01T00:00:00'' @ [NL] @ ''tree:'' @ [NL] @ ''  a.txt deadbeef'' @ [NL])
   \<and> Hashing_calculateHash (''commit'' @ [NL] @ ''message:init'' @ [NL] @ ''timestamp:2024-01-01T00:00:00'' @ [NL] @ ''tree:'' @ [NL] @ ''  a.txt deadbeef'' @ [NL]) = ''45a12172''"
proof -
  have e0: "fnv_loop 2166136261 (''commit'' @ [NL] @ ''message:i'') = 3038302400"
    by (simp add: FNV_PRIME_def)
  have e1: "fnv_loop 3038302400 (''nit'' @ [NL] @ ''timestamp:20'') = 4060836375"
    by (simp add: FNV_PRIME_def)
  have e2: "fnv_loop 4060836375 (''24-01-01T00:00:0'') = 989778205"
    by (simp add: FNV_PRIME_def)
  have e3: "fnv_loop 989778205 (''0'' @ [NL] @ ''tree:'' @ [NL] @ ''  a.txt '') = 3382884960"
    by (simp add: FNV_PRIME_def)
  have e4: "fnv_loop 3382884960 (''deadbeef'' @ [NL]) = 1168187762"
    by (simp add: FNV_PRIME_def)
  have split: "''commit'' @ [NL] @ ''message:init'' @ [NL] @ ''timestamp:2024-01-01T00:00:00'' @ [NL] @ ''tree:'' @ [NL] @ ''  a.txt deadbeef'' @ [NL] = concat [''commit'' @ [NL] @ ''message:i'', ''nit'' @ [NL] @ ''timestamp:20'', ''24-01-01T00:00:0'', ''0'' @ [NL] @ ''tree:'' @ [NL] @ ''  a.txt '', ''deadbeef'' @ [NL]]"
    by simp
  have "fnv_loop FNV_OFFSET_BASIS (''commit'' @ [NL] @ ''message:init'' @ [NL] @ ''timestamp:2024-01-01T00:00:00'' @ [NL] @ ''tree:'' @ [NL] @ ''  a.txt deadbeef'' @ [NL]) = 1168187762"
    unfolding split FNV_OFFSET_BASIS_def fnv_loop_concat
    by (simp only: foldl_Cons foldl_Nil e0 e1 e2 e3 e4)
  then have "Hashing_calculateHash (''commit'' @ [NL] @ ''message:init'' @ [NL] @ ''timestamp:2024-01-01T00:00:00'' @ [NL] @ ''tree:'' @ [NL] @ ''  a.txt deadbeef'' @ [NL]) = ''45a12172''"
    by (simp add: Hashing_calculateHash_value setw_fill_def to_hex.simps hex_digit_def)
  moreover have "contentToHash \<lparr>hash = '''', parentHashes = [], message = ''init'',
      timestamp = ''2024-01-01T00:00:00'', fileBlobs = [(''a.txt'', ''deadbeef'')]\<rparr> = ''commit'' @ [NL] @ ''message:init'' @ [NL] @ ''timestamp:2024-01-01T00:00:00'' @ [NL] @ ''tree:'' @ [NL] @ ''  a.txt deadbeef'' @ [NL]"
    by (simp add: contentToHash_def sortedFileBlobs_def)
  ultimately show ?thesis
    by (simp add: CommitNode_new_def calculateHash_def)
qed

section \<open>Decoding\<close>

subsection \<open>Lines\<close>

lemma getlines_step:
  "ss \<noteq> [] \<Longrightarrow>
   getlines ss = takeWhile (\<lambda>c. c \<noteq> NL) ss # getlines (drop 1 (dropWhile (\<lambda>c. c \<noteq> NL) ss))"
proof (induction ss)
  case Nil
  then show ?case by simp
next
  case (Cons c cs)
  show ?case
  proof (cases "c = NL")
    case True
    then show ?thesis by simp
  next
    case False
    show ?thesis
    proof (cases "cs = []")
      case True
      with False show ?thesis by simp
    next
      case False
      with Cons.IH \<open>c \<noteq> NL\<close> show ?thesis by simp
    qed
  qed
qed

lemma deserialize_loop_lines: "deserialize_loop ss st = deserialize_lines (getlines ss) st"
proof (induction ss st rule: deserialize_loop.induct)
  case (1 ss st)
  show ?case
  proof (cases "ss = []")
    case True
    then show ?thesis
      by (subst deserialize_loop.simps) (simp add: getline_def)
  next
    case False
    let ?l = "takeWhile (\<lambda>c. c \<noteq> NL) ss"
    let ?r = "drop 1 (dropWhile (\<lambda>c. c \<noteq> NL) ss)"
    have g: "getline ss = Some (?l, ?r)"
      using False by (simp add: getline_def)
    have gl: "getlines ss = ?l # getlines ?r"
      using False by (rule getlines_step)
    show ?thesis
    proof (cases "deserialize_line ?l st")
      case (Inl e)
      with g gl show ?thesis
        by (subst deserialize_loop.simps) simp
    next
      case (Inr st')
      with g gl "1.IH" [OF g refl Inr] show ?thesis
        by (subst deserialize_loop.simps) simp
    qed
  qed
qed

lemma splitnl_not_Nil [simp]: "splitnl s \<noteq> []"
  by (induction s) (auto split: list.splits)

lemma getlines_append_NL: "getlines (s @ NL # rest) = splitnl s @ getlines rest"
  by (induction s) (auto split: list.splits)

lemma splitnl_no_NL: "NL \<notin> set s \<Longrightarrow> splitnl s = [s]"
  by (induction s) auto

lemma splitnl_prefix:
  "NL \<notin> set p \<Longrightarrow> splitnl (p @ s) = (p @ hd (splitnl s)) # tl (splitnl s)"
  by (induction p) (auto split: list.splits)

lemma hd_splitnl: "hd (splitnl s) = takeWhile (\<lambda>c. c \<noteq> NL) s"
  by (induction s) (auto split: list.splits)

lemma getlines_terminated:
  "getlines (concat (map (\<lambda>l. l @ [NL]) ls) @ rest) = concat (map splitnl ls) @ getlines rest"
  by (induction ls) (simp_all add: getlines_append_NL)

lemma concat_splitnl_no_NL:
  "\<forall>l\<in>set ls. NL \<notin> set l \<Longrightarrow> concat (map splitnl ls) = ls"
  by (induction ls) (simp_all add: splitnl_no_NL)

lemma deserialize_lines_append:
  "deserialize_lines (xs @ ys) st =
     (case deserialize_lines xs st of Inl e \<Rightarrow> Inl e | Inr st' \<Rightarrow> deserialize_lines ys st')"
  by (induction xs arbitrary: st) (auto split: sum.splits)

subsection \<open>One line\<close>

lemma starts_with_append [simp]: "starts_with (p @ r) p"
  by (simp add: starts_with_def)

lemma starts_withE: "starts_with l p \<Longrightarrow> \<exists>r. l = p @ r"
  unfolding starts_with_def by (metis append_take_drop_id)

lemma find_char_None: "find_char c s = None \<longleftrightarrow> c \<notin> set s"
  by (induction s) auto

lemma find_char_first: "c \<notin> set p \<Longrightarrow> find_char c (p @ c # r) = Some (length p)"
  by (induction p) auto

lemma line_type_commit [simp]: "deserialize_line ''type:commit'' st = Inr st"
  by (simp add: deserialize_line_def starts_with_def substr_def split: prod.splits)

lemma line_hash:
  "deserialize_line (''hash:'' @ h) (c, ps, fb) = Inr (c\<lparr>hash := h\<rparr>, ps, fb)"
  by (simp add: deserialize_line_def starts_with_def substr_def)

lemma line_message:
  "deserialize_line (''message:'' @ m) (c, ps, fb) = Inr (c\<lparr>message := m\<rparr>, ps, fb)"
  by (simp add: deserialize_line_def starts_with_def substr_def)

lemma line_timestamp:
  "deserialize_line (''timestamp:'' @ t) (c, ps, fb) = Inr (c\<lparr>timestamp := t\<rparr>, ps, fb)"
  by (simp add: deserialize_line_def starts_with_def substr_def)

lemma line_parent:
  "deserialize_line (''parent:'' @ p) (c, ps, fb) = Inr (c, ps @ [p], fb)"
  by (simp add: deserialize_line_def starts_with_def substr_def)

lemma line_file:
  "CHR '' '' \<notin> set k \<Longrightarrow>
   deserialize_line (''file:'' @ k @ '' '' @ v) (c, ps, fb) = Inr (c, ps, umap_assign k v fb)"
  by (simp add: deserialize_line_def starts_with_def substr_def find_char_first)

lemma line_commit [simp]: "deserialize_line ''commit'' st = Inr st"
  by (simp add: deserialize_line_def starts_with_def substr_def split: prod.splits)

lemma line_tree [simp]: "deserialize_line ''tree:'' st = Inr st"
  by (simp add: deserialize_line_def starts_with_def substr_def split: prod.splits)

lemma line_indented: "deserialize_line (''  '' @ x) st = Inr st"
  by (simp add: deserialize_line_def starts_with_def substr_def split: prod.splits)

lemmas line_simps [simp] =
  line_hash line_message line_timestamp line_parent line_indented line_file
  line_hash [unfolded append.simps] line_message [unfolded append.simps]
  line_timestamp [unfolded append.simps] line_parent [unfolded append.simps]
  line_indented [unfolded append.simps] line_file [unfolded append.simps]

lemma line_bad_type:
  "bad_type_line l \<Longrightarrow>
   deserialize_line l st =
     Inl (runtime_error (''Deserialization error: Expected type:commit, got '' @ substr l 5))"
  by (simp add: deserialize_line_def bad_type_line_def split: prod.splits)

lemma line_bad_file:
  assumes "bad_file_line l"
  shows "deserialize_line l st =
     Inl (runtime_error ''Deserialization error: Invalid file entry format in commit.'')"
proof -
  from assms obtain r where l: "l = ''file:'' @ r"
    unfolding bad_file_line_def by (blast dest: starts_withE)
  with assms have "find_char CHR '' '' r = None"
    by (simp add: bad_file_line_def substr_def find_char_None)
  with l show ?thesis
    by (simp add: deserialize_line_def starts_with_def substr_def split: prod.splits)
qed

lemma line_accepted:
  assumes "accepted_line l"
  shows "\<exists>st'. deserialize_line l st = Inr st'"
proof -
  obtain c ps fb where st: "st = (c, ps, fb)"
    by (cases st)
  from assms have t: "starts_with l ''type:'' \<Longrightarrow> substr l 5 = ''commit''"
    and f: "starts_with l ''file:'' \<Longrightarrow> find_char CHR '' '' (substr l 5) \<noteq> None"
    by (auto simp: accepted_line_def bad_type_line_def bad_file_line_def find_char_None)
  show ?thesis
    unfolding deserialize_line_def st using t f
    by (auto simp: Let_def split: option.splits)
qed

lemma line_Inl_cases:
  assumes "deserialize_line l st = Inl e"
  shows "(bad_type_line l \<and>
          e = runtime_error (''Deserialization error: Expected type:commit, got '' @ substr l 5))
       \<or> (bad_file_line l \<and>
          e = runtime_error ''Deserialization error: Invalid file entry format in commit.'')"
proof (cases "accepted_line l")
  case True
  from line_accepted [OF this, of st] assms show ?thesis by auto
next
  case False
  then consider "bad_type_line l" | "\<not> bad_type_line l" "bad_file_line l"
    unfolding accepted_line_def by blast
  then show ?thesis
  proof cases
    case 1
    with assms line_bad_type [OF 1, of st] show ?thesis by simp
  next
    case 2
    with assms line_bad_file [OF 2(2), of st] show ?thesis by simp
  qed
qed

subsection \<open>Many lines\<close>

lemma lines_accepted:
  "\<forall>l\<in>set ls. accepted_line l \<Longrightarrow> \<exists>st'. deserialize_lines ls st = Inr st'"
proof (induction ls arbitrary: st)
  case Nil
  show ?case by (cases st) simp
next
  case (Cons l ls)
  from Cons.prems have "accepted_line l"
    by simp
  from line_accepted [OF this] obtain st1 where "deserialize_line l st = Inr st1"
    by blast
  with Cons show ?case by simp
qed

lemma lines_Inl_cases:
  "deserialize_lines ls st = Inl e \<Longrightarrow>
   (\<exists>l\<in>set ls. bad_type_line l \<and>
      e = runtime_error (''Deserialization error: Expected type:commit, got '' @ substr l 5))
   \<or> (\<exists>l\<in>set ls. bad_file_line l \<and>
      e = runtime_error ''Deserialization error: Invalid file entry format in commit.'')"
proof (induction ls arbitrary: st)
  case Nil
  then show ?case by simp
next
  case (Cons l ls)
  show ?case
  proof (cases "deserialize_line l st")
    case (Inl e')
    with Cons.prems have "e' = e" by simp
    with Inl line_Inl_cases [of l st e] show ?thesis by auto
  next
    case (Inr st1)
    with Cons.prems have "deserialize_lines ls st1 = Inl e" by simp
    from Cons.IH [OF this] show ?thesis by auto
  qed
qed

lemma lines_rejected:
  "l \<in> set ls \<Longrightarrow> \<not> accepted_line l \<Longrightarrow> \<exists>e. deserialize_lines ls st = Inl e"
proof (induction ls arbitrary: st)
  case Nil
  then show ?case by simp
next
  case (Cons x ls)
  show ?case
  proof (cases "deserialize_line x st")
    case (Inl e)
    then show ?thesis by simp
  next
    case (Inr st1)
    have "x \<noteq> l"
    proof
      assume "x = l"
      with Cons.prems(2) consider "bad_type_line x" | "bad_file_line x"
        unfolding accepted_line_def by blast
      then show False
        using Inr line_bad_type [of x st] line_bad_file [of x st] by cases simp_all
    qed
    with Cons.prems have "l \<in> set ls" by simp
    from Cons.IH [OF this Cons.prems(2), of st1] Inr show ?thesis by simp
  qed
qed

lemma lines_parents:
  "deserialize_lines (map (\<lambda>p. ''parent:'' @ p) ps) (c, acc, fb) = Inr (c, acc @ ps, fb)"
  by (induction ps arbitrary: acc) simp_all

lemma lines_files:
  "\<forall>e\<in>set es. CHR '' '' \<notin> set (fst e) \<Longrightarrow>
   deserialize_lines (map (\<lambda>e. ''file:'' @ fst e @ '' '' @ snd e) es) (c, ps, fb) =
     Inr (c, ps, fold (\<lambda>e. umap_assign (fst e) (snd e)) es fb)"
  by (induction es arbitrary: fb) simp_all

lemma lines_indented:
  "deserialize_lines (map (\<lambda>e. ''  '' @ f e) es) st = Inr st"
  by (induction es) simp_all

section \<open>Encoding and decoding a commit\<close>

subsection \<open>The snapshot\<close>

lemma filter_same_key:
  "distinct (map fst xs) \<Longrightarrow> k \<in> set xs \<Longrightarrow> filter (\<lambda>x. fst k = fst x) xs = [k]"
proof (induction xs)
  case Nil
  then show ?case by simp
next
  case (Cons x xs)
  show ?case
  proof (cases "k = x")
    case True
    with Cons.prems(1) have "filter (\<lambda>y. fst k = fst y) xs = []"
      by (auto simp: filter_empty_conv image_iff)
    with True show ?thesis by simp
  next
    case False
    with Cons.prems have k: "k \<in> set xs" by simp
    with Cons.prems(1) have "fst k \<noteq> fst x"
      by (auto simp: image_iff)
    with Cons.IH k Cons.prems(1) show ?thesis by simp
  qed
qed

lemma distinct_keys_distinct: "distinct (map fst xs) \<Longrightarrow> distinct xs"
  by (rule distinct_map [THEN iffD1, THEN conjunct1])

lemma sort_key_fst_unique:
  assumes a: "distinct (map fst a)" and b: "distinct (map fst b)" and ab: "set a = set b"
  shows "sort_key fst a = sort_key fst b"
proof (rule properties_for_sort_key)
  from a b have "distinct a" "distinct b"
    by (auto dest: distinct_keys_distinct)
  with ab have "mset a = mset b"
    by (simp add: set_eq_iff_mset_eq_distinct)
  then show "mset (sort_key fst b) = mset a"
    by simp
next
  fix k assume "k \<in> set (sort_key fst b)"
  then have kb: "k \<in> set b" by simp
  with ab have ka: "k \<in> set a" by simp
  have "mset (map fst (sort_key fst b)) = mset (map fst b)"
    by simp
  with b have "distinct (map fst (sort_key fst b))"
    by (metis mset_eq_imp_distinct_iff)
  with kb have "filter (\<lambda>x. fst k = fst x) (sort_key fst b) = [k]"
    by (intro filter_same_key) simp_all
  moreover from a ka have "filter (\<lambda>x. fst k = fst x) a = [k]"
    by (rule filter_same_key)
  ultimately show "filter (\<lambda>x. fst k = fst x) (sort_key fst b) = filter (\<lambda>x. fst k = fst x) a"
    by simp
next
  show "sorted (map fst (sort_key fst b))"
    by simp
qed

lemma sortedFileBlobs_set [simp]: "set (sortedFileBlobs fb) = set fb"
  by (simp add: sortedFileBlobs_def)

lemma sortedFileBlobs_distinct:
  "distinct (map fst fb) \<Longrightarrow> distinct (map fst (sortedFileBlobs fb))"
proof -
  assume d: "distinct (map fst fb)"
  have "mset (map fst (sortedFileBlobs fb)) = mset (map fst fb)"
    by (simp add: sortedFileBlobs_def)
  with d show ?thesis
    by (metis mset_eq_imp_distinct_iff)
qed

lemma sortedFileBlobs_idem:
  "sortedFileBlobs (sortedFileBlobs fb) = sortedFileBlobs fb"
  unfolding sortedFileBlobs_def by (simp add: sort_key_id_if_sorted)

lemma umap_assign_fresh: "k \<notin> fst ` set m \<Longrightarrow> umap_assign k v m = m @ [(k, v)]"
  by (induction m) auto

lemma fold_umap_assign_fresh:
  "distinct (map fst (m @ es)) \<Longrightarrow>
   fold (\<lambda>e. umap_assign (fst e) (snd e)) es m = m @ es"
proof (induction es arbitrary: m)
  case Nil
  show ?case by simp
next
  case (Cons e es)
  from Cons.prems have "fst e \<notin> fst ` set m"
    by auto
  then have "umap_assign (fst e) (snd e) m = m @ [e]"
    by (simp add: umap_assign_fresh)
  moreover from Cons.prems have "distinct (map fst ((m @ [e]) @ es))"
    by simp
  ultimately show ?case
    using Cons.IH [of "m @ [e]"] by simp
qed




subsection \<open>The two encodings as lists of lines\<close>

lemma concat_terminated:
  "concat (map (\<lambda>x. f x @ [NL]) xs) = concat (map (\<lambda>l. l @ [NL]) (map f xs))"
  by (induction xs) simp_all

lemma serialize_lines: "serialize c = concat (map (\<lambda>l. l @ [NL]) (stored_lines c))"
proof -
  have p: "concat (map (\<lambda>parent. ''parent:'' @ parent @ [NL]) ps) =
      concat (map (\<lambda>l. l @ [NL]) (map (\<lambda>parent. ''parent:'' @ parent) ps))" for ps
    using concat_terminated [of "\<lambda>parent. ''parent:'' @ parent" ps] by simp
  have f: "concat (map (\<lambda>entry. ''file:'' @ fst entry @ '' '' @ snd entry @ [NL]) es) =
      concat (map (\<lambda>l. l @ [NL]) (map (\<lambda>entry. ''file:'' @ fst entry @ '' '' @ snd entry) es))"
    for es :: "(string \<times> string) list"
    using concat_terminated [of "\<lambda>entry. ''file:'' @ fst entry @ '' '' @ snd entry" es] by simp
  show ?thesis
    unfolding serialize_def stored_lines_def p f by simp
qed

lemma contentToHash_lines:
  "contentToHash c = concat (map (\<lambda>l. l @ [NL]) (hash_input_lines c))"
proof -
  have p: "concat (map (\<lambda>parent. ''parent:'' @ parent @ [NL]) ps) =
      concat (map (\<lambda>l. l @ [NL]) (map (\<lambda>parent. ''parent:'' @ parent) ps))" for ps
    using concat_terminated [of "\<lambda>parent. ''parent:'' @ parent" ps] by simp
  have f: "concat (map (\<lambda>entry. ''  '' @ fst entry @ '' '' @ snd entry @ [NL]) es) =
      concat (map (\<lambda>l. l @ [NL]) (map (\<lambda>entry. ''  '' @ (fst entry @ '' '' @ snd entry)) es))"
    for es :: "(string \<times> string) list"
    using concat_terminated [of "\<lambda>entry. ''  '' @ (fst entry @ '' '' @ snd entry)" es] by simp
  show ?thesis
    unfolding contentToHash_def hash_input_lines_def p f by simp
qed

lemma getlines_serialize: "getlines (serialize c) = concat (map splitnl (stored_lines c))"
  using getlines_terminated [of "stored_lines c" "[]"] by (simp add: serialize_lines)

lemma getlines_contentToHash:
  "getlines (contentToHash c) = concat (map splitnl (hash_input_lines c))"
  using getlines_terminated [of "hash_input_lines c" "[]"] by (simp add: contentToHash_lines)

lemma well_formed_entries:
  "well_formed c \<Longrightarrow> e \<in> set (fileBlobs c) \<Longrightarrow>
   NL \<notin> set (fst e) \<and> CHR '' '' \<notin> set (fst e) \<and> NL \<notin> set (snd e)"
  by (auto simp: well_formed_def well_formed_entry_def list_all_iff)

lemma stored_lines_no_NL:
  assumes "well_formed c" and "NL \<notin> set (hash c)" and "l \<in> set (stored_lines c)"
  shows "NL \<notin> set l"
  using assms well_formed_entries [OF assms(1)]
  by (auto simp: stored_lines_def well_formed_def list_all_iff)

lemma hash_input_lines_no_NL:
  assumes "well_formed c" and "l \<in> set (hash_input_lines c)"
  shows "NL \<notin> set l"
  using assms well_formed_entries [OF assms(1)]
  by (auto simp: hash_input_lines_def well_formed_def list_all_iff)

lemma deserialize_lines_stored:
  assumes "\<forall>e\<in>set (fileBlobs c). CHR '' '' \<notin> set (fst e)"
    and "distinct (map fst (fileBlobs c))"
  shows "deserialize_lines (stored_lines c) (CommitNode_default, [], []) =
    Inr (CommitNode_default\<lparr>hash := hash c, message := message c, timestamp := timestamp c\<rparr>,
         parentHashes c, sortedFileBlobs (fileBlobs c))"
proof -
  from assms(1) have sp: "\<forall>e\<in>set (sortedFileBlobs (fileBlobs c)). CHR '' '' \<notin> set (fst e)"
    by simp
  from assms(2) have "distinct (map fst ([] @ sortedFileBlobs (fileBlobs c)))"
    by (simp add: sortedFileBlobs_distinct)
  then have fo: "fold (\<lambda>e. umap_assign (fst e) (snd e)) (sortedFileBlobs (fileBlobs c)) [] =
      sortedFileBlobs (fileBlobs c)"
    using fold_umap_assign_fresh [of "[]" "sortedFileBlobs (fileBlobs c)"] by simp
  show ?thesis
    unfolding stored_lines_def
    by (simp add: deserialize_lines_append lines_parents
        lines_files [OF sp] lines_files [OF sp, unfolded append.simps] fo)
qed

lemma deserialize_serialize:
  assumes wf: "well_formed c" and h: "NL \<notin> set (hash c)"
  shows "deserialize (serialize c) =
    Inr \<lparr>hash = hash c, parentHashes = parentHashes c, message = message c,
         timestamp = timestamp c, fileBlobs = sortedFileBlobs (fileBlobs c)\<rparr>"
proof -
  have "getlines (serialize c) = stored_lines c"
    unfolding getlines_serialize
    by (rule concat_splitnl_no_NL) (simp add: stored_lines_no_NL [OF wf h])
  moreover have "\<forall>e\<in>set (fileBlobs c). CHR '' '' \<notin> set (fst e)"
    using well_formed_entries [OF wf] by blast
  moreover from wf have "distinct (map fst (fileBlobs c))"
    by (simp add: well_formed_def)
  ultimately have "deserialize_loop (serialize c) (CommitNode_default, [], []) =
    Inr (CommitNode_default\<lparr>hash := hash c, message := message c, timestamp := timestamp c\<rparr>,
         parentHashes c, sortedFileBlobs (fileBlobs c))"
    by (simp add: deserialize_loop_lines deserialize_lines_stored)
  then show ?thesis
    by (simp add: deserialize_def CommitNode_default_def)
qed

lemma deserialize_lines_hash_input:
  "deserialize_lines (hash_input_lines c) (CommitNode_default, [], []) =
    Inr (CommitNode_default\<lparr>message := message c, timestamp := timestamp c\<rparr>,
         parentHashes c, [])"
  unfolding hash_input_lines_def
  by (simp add: deserialize_lines_append lines_parents lines_parents [unfolded append.simps]
      lines_indented lines_indented [unfolded append.simps])

lemma deserialize_contentToHash:
  assumes wf: "well_formed c"
  shows "deserialize (contentToHash c) =
    Inr \<lparr>hash = '''', parentHashes = parentHashes c, message = message c,
         timestamp = timestamp c, fileBlobs = []\<rparr>"
proof -
  have "getlines (contentToHash c) = hash_input_lines c"
    unfolding getlines_contentToHash
    by (rule concat_splitnl_no_NL) (simp add: hash_input_lines_no_NL [OF wf])
  then have "deserialize_loop (contentToHash c) (CommitNode_default, [], []) =
    Inr (CommitNode_default\<lparr>message := message c, timestamp := timestamp c\<rparr>,
         parentHashes c, [])"
    by (simp add: deserialize_loop_lines deserialize_lines_hash_input)
  then show ?thesis
    by (simp add: deserialize_def CommitNode_default_def)
qed

section \<open>The claims about the commit encoding\<close>

lemma hash_CommitNode_new:
  "hash (CommitNode_new msg parents blobs now) =
     Hashing_calculateHash (contentToHash (CommitNode_new msg parents blobs now))"
  by (simp add: CommitNode_new_def calculateHash_def contentToHash_def)

lemma fields_CommitNode_new [simp]:
  "message (CommitNode_new msg parents blobs now) = msg"
  "timestamp (CommitNode_new msg parents blobs now) = now"
  "parentHashes (CommitNode_new msg parents blobs now) = parents"
  "fileBlobs (CommitNode_new msg parents blobs now) = blobs"
  by (simp_all add: CommitNode_new_def)

text \<open>
  Claim C4. Let two snapshots hold the same entries, in any two iteration orders of the
  map (in particular after inserting the entries in two different orders). The vector
  both encoders write from holds exactly the entries of the snapshot, strictly ascending
  by path, and is the same for the two snapshots; the stored form and the hash input end
  with the lines of this vector, in this order. Hence the stored forms, the hash inputs
  and the identifiers of the two commits are equal.
\<close>

theorem encoding_independent_of_insertion_order:
  assumes "distinct (map fst blobs1)" and "distinct (map fst blobs2)"
    and "set blobs1 = set blobs2"
  shows "sorted_wrt (<) (map fst (sortedFileBlobs blobs1))
    \<and> mset (sortedFileBlobs blobs1) = mset blobs1
    \<and> sortedFileBlobs blobs1 = sortedFileBlobs blobs2
    \<and> serialize (CommitNode_new msg parents blobs1 now) =
          ''type:commit'' @ [NL] @
          ''hash:'' @ hash (CommitNode_new msg parents blobs1 now) @ [NL] @
          ''message:'' @ msg @ [NL] @
          ''timestamp:'' @ now @ [NL] @
          concat (map (\<lambda>parent. ''parent:'' @ parent @ [NL]) parents) @
          concat (map (\<lambda>entry. ''file:'' @ fst entry @ '' '' @ snd entry @ [NL])
            (sortedFileBlobs blobs1))
    \<and> contentToHash (CommitNode_new msg parents blobs1 now) =
          ''commit'' @ [NL] @
          ''message:'' @ msg @ [NL] @
          ''timestamp:'' @ now @ [NL] @
          concat (map (\<lambda>parent. ''parent:'' @ parent @ [NL]) parents) @
          ''tree:'' @ [NL] @
          concat (map (\<lambda>entry. ''  '' @ fst entry @ '' '' @ snd entry @ [NL])
            (sortedFileBlobs blobs1))
    \<and> serialize (CommitNode_new msg parents blobs1 now) =
          serialize (CommitNode_new msg parents blobs2 now)
    \<and> contentToHash (CommitNode_new msg parents blobs1 now) =
          contentToHash (CommitNode_new msg parents blobs2 now)
    \<and> hash (CommitNode_new msg parents blobs1 now) =
          hash (CommitNode_new msg parents blobs2 now)"
proof -
  have "sorted (map fst (sortedFileBlobs blobs1))"
    by (simp add: sortedFileBlobs_def)
  moreover from assms(1) have "distinct (map fst (sortedFileBlobs blobs1))"
    by (rule sortedFileBlobs_distinct)
  ultimately have asc: "sorted_wrt (<) (map fst (sortedFileBlobs blobs1))"
    by (simp add: strict_sorted_iff)
  have m: "mset (sortedFileBlobs blobs1) = mset blobs1"
    by (simp add: sortedFileBlobs_def)
  have s: "sortedFileBlobs blobs1 = sortedFileBlobs blobs2"
    unfolding sortedFileBlobs_def using assms by (rule sort_key_fst_unique)
  have ser: "serialize (CommitNode_new msg parents blobs1 now) =
      ''type:commit'' @ [NL] @
      ''hash:'' @ hash (CommitNode_new msg parents blobs1 now) @ [NL] @
      ''message:'' @ msg @ [NL] @
      ''timestamp:'' @ now @ [NL] @
      concat (map (\<lambda>parent. ''parent:'' @ parent @ [NL]) parents) @
      concat (map (\<lambda>entry. ''file:'' @ fst entry @ '' '' @ snd entry @ [NL])
        (sortedFileBlobs blobs1))"
    by (simp add: serialize_def)
  have con: "contentToHash (CommitNode_new msg parents blobs1 now) =
      ''commit'' @ [NL] @
      ''message:'' @ msg @ [NL] @
      ''timestamp:'' @ now @ [NL] @
      concat (map (\<lambda>parent. ''parent:'' @ parent @ [NL]) parents) @
      ''tree:'' @ [NL] @
      concat (map (\<lambda>entry. ''  '' @ fst entry @ '' '' @ snd entry @ [NL])
        (sortedFileBlobs blobs1))"
    by (simp add: contentToHash_def)
  from s have c: "contentToHash (CommitNode_new msg parents blobs1 now) =
      contentToHash (CommitNode_new msg parents blobs2 now)"
    by (simp add: contentToHash_def)
  then have h: "hash (CommitNode_new msg parents blobs1 now) =
      hash (CommitNode_new msg parents blobs2 now)"
    by (simp only: hash_CommitNode_new)
  from s h have e: "serialize (CommitNode_new msg parents blobs1 now) =
      serialize (CommitNode_new msg parents blobs2 now)"
    by (simp add: serialize_def)
  from asc m s ser con e c h show ?thesis
    by (intro conjI)
qed

theorem encoding_independent_of_insertion_order_witness:
  "sorted_wrt (<) (map fst (sortedFileBlobs [(''b.txt'', ''2''), (''a.txt'', ''1'')]))
   \<and> mset (sortedFileBlobs [(''b.txt'', ''2''), (''a.txt'', ''1'')]) =
       mset [(''b.txt'', ''2''), (''a.txt'', ''1'')]
   \<and> sortedFileBlobs [(''b.txt'', ''2''), (''a.txt'', ''1'')] =
       sortedFileBlobs [(''a.txt'', ''1''), (''b.txt'', ''2'')]
   \<and> serialize (CommitNode_new ''m'' [] [(''b.txt'', ''2''), (''a.txt'', ''1'')] ''t'') =
       serialize (CommitNode_new ''m'' [] [(''a.txt'', ''1''), (''b.txt'', ''2'')] ''t'')
   \<and> contentToHash (CommitNode_new ''m'' [] [(''b.txt'', ''2''), (''a.txt'', ''1'')] ''t'') =
       contentToHash (CommitNode_new ''m'' [] [(''a.txt'', ''1''), (''b.txt'', ''2'')] ''t'')
   \<and> hash (CommitNode_new ''m'' [] [(''b.txt'', ''2''), (''a.txt'', ''1'')] ''t'') =
       hash (CommitNode_new ''m'' [] [(''a.txt'', ''1''), (''b.txt'', ''2'')] ''t'')"
proof -
  have d1: "distinct (map fst [(''b.txt'', ''2''), (''a.txt'', ''1'')])"
    by simp
  have d2: "distinct (map fst [(''a.txt'', ''1''), (''b.txt'', ''2'')])"
    by simp
  have s: "set [(''b.txt'', ''2''), (''a.txt'', ''1'')] = set [(''a.txt'', ''1''), (''b.txt'', ''2'')]"
    by (simp add: insert_commute)
  from encoding_independent_of_insertion_order [OF d1 d2 s, of "''m''" "[]" "''t''"]
  show ?thesis
    by blast
qed

text \<open>
  Claim C1, as stated, fails: the hash input is not the stored form without its
  \<open>hash:\<close> line. It starts with \<open>commit\<close> instead of \<open>type:commit\<close>, has a \<open>tree:\<close> line, and
  writes a snapshot entry as two spaces, path, space, blob, not as a \<open>file:\<close> line. The
  decoder ignores these lines, so decoding a hash input returns an empty snapshot.
\<close>

theorem decode_hash_input_loses_snapshot:
  "well_formed \<lparr>hash = ''45a12172'', parentHashes = [], message = ''init'',
       timestamp = ''2024-01-01T00:00:00'', fileBlobs = [(''a.txt'', ''deadbeef'')]\<rparr>
   \<and> contentToHash \<lparr>hash = ''45a12172'', parentHashes = [], message = ''init'',
       timestamp = ''2024-01-01T00:00:00'', fileBlobs = [(''a.txt'', ''deadbeef'')]\<rparr> =
     ''commit'' @ [NL] @ ''message:init'' @ [NL] @ ''timestamp:2024-01-01T00:00:00'' @ [NL] @
     ''tree:'' @ [NL] @ ''  a.txt deadbeef'' @ [NL]
   \<and> serialize \<lparr>hash = ''45a12172'', parentHashes = [], message = ''init'',
       timestamp = ''2024-01-01T00:00:00'', fileBlobs = [(''a.txt'', ''deadbeef'')]\<rparr> =
     ''type:commit'' @ [NL] @ ''hash:45a12172'' @ [NL] @ ''message:init'' @ [NL] @
     ''timestamp:2024-01-01T00:00:00'' @ [NL] @ ''file:a.txt deadbeef'' @ [NL]
   \<and> deserialize (contentToHash \<lparr>hash = ''45a12172'', parentHashes = [], message = ''init'',
       timestamp = ''2024-01-01T00:00:00'', fileBlobs = [(''a.txt'', ''deadbeef'')]\<rparr>) =
     Inr \<lparr>hash = '''', parentHashes = [], message = ''init'',
       timestamp = ''2024-01-01T00:00:00'', fileBlobs = []\<rparr>"
proof -
  let ?r = "\<lparr>hash = ''45a12172'', parentHashes = [], message = ''init'',
       timestamp = ''2024-01-01T00:00:00'', fileBlobs = [(''a.txt'', ''deadbeef'')]\<rparr>"
  have wf: "well_formed ?r"
    by (simp add: well_formed_def well_formed_entry_def)
  from deserialize_contentToHash [OF wf] wf show ?thesis
    by (simp add: contentToHash_def serialize_def sortedFileBlobs_def)
qed

text \<open>
  Claim C1, amended. For a well-formed commit whose identifier contains no newline,
  decoding the stored form gives back the identifier, the message, the timestamp, the
  parents in their order, and a snapshot with the same entries and distinct keys. Decoding
  the hash input gives back the message, the timestamp and the parents in their order,
  with an empty identifier and an empty snapshot.
\<close>

theorem deserialize_roundtrip:
  assumes "well_formed c" and "NL \<notin> set (hash c)"
  shows "(\<exists>r. deserialize (serialize c) = Inr r
        \<and> hash r = hash c \<and> message r = message c \<and> timestamp r = timestamp c
        \<and> parentHashes r = parentHashes c
        \<and> set (fileBlobs r) = set (fileBlobs c) \<and> distinct (map fst (fileBlobs r)))
    \<and> deserialize (contentToHash c) =
        Inr \<lparr>hash = '''', parentHashes = parentHashes c, message = message c,
             timestamp = timestamp c, fileBlobs = []\<rparr>"
proof -
  from assms(1) have "distinct (map fst (sortedFileBlobs (fileBlobs c)))"
    by (simp add: well_formed_def sortedFileBlobs_distinct)
  then show ?thesis
    by (simp add: deserialize_serialize [OF assms] deserialize_contentToHash [OF assms(1)])
qed

theorem deserialize_roundtrip_witness:
  "(\<exists>r. deserialize (serialize \<lparr>hash = ''0badcafe'', parentHashes = [''11111111'', ''22222222''],
          message = ''merge'', timestamp = ''2024-01-01T00:00:00'',
          fileBlobs = [(''b.txt'', ''cafebabe''), (''a.txt'', ''deadbeef'')]\<rparr>) = Inr r
      \<and> hash r = ''0badcafe'' \<and> message r = ''merge'' \<and> timestamp r = ''2024-01-01T00:00:00''
      \<and> parentHashes r = [''11111111'', ''22222222'']
      \<and> set (fileBlobs r) = {(''a.txt'', ''deadbeef''), (''b.txt'', ''cafebabe'')}
      \<and> distinct (map fst (fileBlobs r)))
   \<and> deserialize (contentToHash \<lparr>hash = ''0badcafe'', parentHashes = [''11111111'', ''22222222''],
          message = ''merge'', timestamp = ''2024-01-01T00:00:00'',
          fileBlobs = [(''b.txt'', ''cafebabe''), (''a.txt'', ''deadbeef'')]\<rparr>) =
      Inr \<lparr>hash = '''', parentHashes = [''11111111'', ''22222222''], message = ''merge'',
          timestamp = ''2024-01-01T00:00:00'', fileBlobs = []\<rparr>"
proof -
  let ?c = "\<lparr>hash = ''0badcafe'', parentHashes = [''11111111'', ''22222222''],
          message = ''merge'', timestamp = ''2024-01-01T00:00:00'',
          fileBlobs = [(''b.txt'', ''cafebabe''), (''a.txt'', ''deadbeef'')]\<rparr>"
  have wf: "well_formed ?c"
    by (simp add: well_formed_def well_formed_entry_def)
  have h: "NL \<notin> set (hash ?c)"
    by simp
  have s: "{(''b.txt'', ''cafebabe''), (''a.txt'', ''deadbeef'')} =
      {(''a.txt'', ''deadbeef''), (''b.txt'', ''cafebabe'')}"
    by (rule insert_commute)
  from deserialize_roundtrip [OF wf h] show ?thesis
    by (simp add: s)
qed

section \<open>Decoding errors, repeated paths, reading a file\<close>

lemma deserialize_Inl:
  "deserialize content = Inl e \<longleftrightarrow>
     deserialize_lines (getlines content) (CommitNode_default, [], []) = Inl e"
  by (simp add: deserialize_def deserialize_loop_lines split: sum.splits prod.splits)

lemma deserialize_Inr:
  "deserialize_lines (getlines content) (CommitNode_default, [], []) = Inr (c, ps, fb) \<Longrightarrow>
   deserialize content = Inr (c\<lparr>parentHashes := ps, fileBlobs := fb\<rparr>)"
  by (simp add: deserialize_def deserialize_loop_lines)

lemma lines_first_bad_file:
  "\<forall>x\<in>set pre. \<not> bad_type_line x \<Longrightarrow> bad_file_line l \<Longrightarrow>
   deserialize_lines (pre @ [l] @ post) st =
     Inl (runtime_error ''Deserialization error: Invalid file entry format in commit.'')"
proof (induction pre arbitrary: st)
  case Nil
  then show ?case
    by (simp add: line_bad_file)
next
  case (Cons x pre)
  show ?case
  proof (cases "deserialize_line x st")
    case (Inl e)
    from line_Inl_cases [OF Inl] Cons.prems(1)
    have "e = runtime_error ''Deserialization error: Invalid file entry format in commit.''"
      by auto
    with Inl show ?thesis
      by simp
  next
    case (Inr st1)
    from Cons.prems have "deserialize_lines (pre @ [l] @ post) st1 =
        Inl (runtime_error ''Deserialization error: Invalid file entry format in commit.'')"
      by (intro Cons.IH) simp_all
    with Inr show ?thesis
      by simp
  qed
qed

lemma lines_first_bad_type:
  "\<forall>x\<in>set pre. accepted_line x \<Longrightarrow> bad_type_line t \<Longrightarrow>
   deserialize_lines (pre @ [t] @ post) st =
     Inl (runtime_error (''Deserialization error: Expected type:commit, got '' @ substr t 5))"
proof (induction pre arbitrary: st)
  case Nil
  then show ?case
    by (simp add: line_bad_type)
next
  case (Cons x pre)
  from Cons.prems(1) have "accepted_line x"
    by simp
  from line_accepted [OF this] obtain st1 where "deserialize_line x st = Inr st1"
    by blast
  moreover from Cons.prems have "deserialize_lines (pre @ [t] @ post) st1 =
      Inl (runtime_error (''Deserialization error: Expected type:commit, got '' @ substr t 5))"
    by (intro Cons.IH) simp_all
  ultimately show ?case
    by simp
qed

text \<open>
  Claim C7, as stated, fails: the loop throws at the first line it rejects, and a line
  \<open>type:blob\<close> before the \<open>file:\<close> line without a space makes \<^verbatim>\<open>deserialize\<close> throw the
  error for an unexpected type, not the one for an invalid file entry.
\<close>

theorem type_error_comes_first:
  "deserialize (''type:blob'' @ [NL] @ ''file:a.txt'' @ [NL]) =
     Inl (runtime_error ''Deserialization error: Expected type:commit, got blob'')"
  by (simp add: deserialize_def deserialize_loop_lines deserialize_line_def starts_with_def
      substr_def)

text \<open>
  Claim C7, amended. If a line of the input starts with \<open>file:\<close> and has no space after
  this prefix, \<^verbatim>\<open>deserialize\<close> throws and returns no commit. The error is the one of the
  first line it rejects: the invalid file entry error when no \<open>type:\<close> line with a value
  other than \<open>commit\<close> comes before that \<open>file:\<close> line, and the unexpected type error, with
  the value of the line, when such a \<open>type:\<close> line comes before it with only accepted lines
  in front.
\<close>

theorem deserialize_file_line_without_space:
  assumes lines: "getlines content = pre @ [l] @ post"
    and prefix: "starts_with l ''file:''" and nospace: "CHR '' '' \<notin> set (substr l 5)"
  shows "(\<exists>msg. deserialize content = Inl (runtime_error msg))
    \<and> ((\<forall>x\<in>set pre. \<not> bad_type_line x) \<longrightarrow>
         deserialize content =
           Inl (runtime_error ''Deserialization error: Invalid file entry format in commit.''))
    \<and> (\<forall>pre' t post'. pre = pre' @ [t] @ post' \<and> (\<forall>x\<in>set pre'. accepted_line x)
           \<and> bad_type_line t \<longrightarrow>
         deserialize content =
           Inl (runtime_error
             (''Deserialization error: Expected type:commit, got '' @ substr t 5)))"
proof (intro conjI)
  from prefix nospace have bad: "bad_file_line l"
    by (simp add: bad_file_line_def)
  then have "\<not> accepted_line l"
    by (simp add: accepted_line_def)
  moreover from lines have "l \<in> set (getlines content)"
    by simp
  ultimately obtain e
    where e: "deserialize_lines (getlines content) (CommitNode_default, [], []) = Inl e"
    using lines_rejected by blast
  obtain msg where "e = runtime_error msg"
    by (cases e)
  with e show "\<exists>msg. deserialize content = Inl (runtime_error msg)"
    by (simp add: deserialize_Inl)
  show "(\<forall>x\<in>set pre. \<not> bad_type_line x) \<longrightarrow>
      deserialize content =
        Inl (runtime_error ''Deserialization error: Invalid file entry format in commit.'')"
  proof
    assume "\<forall>x\<in>set pre. \<not> bad_type_line x"
    from lines_first_bad_file [OF this bad] show "deserialize content =
        Inl (runtime_error ''Deserialization error: Invalid file entry format in commit.'')"
      by (simp only: deserialize_Inl lines)
  qed
  show "\<forall>pre' t post'. pre = pre' @ [t] @ post' \<and> (\<forall>x\<in>set pre'. accepted_line x)
        \<and> bad_type_line t \<longrightarrow>
      deserialize content =
        Inl (runtime_error (''Deserialization error: Expected type:commit, got '' @ substr t 5))"
  proof (intro allI impI)
    fix pre' t post'
    assume a: "pre = pre' @ [t] @ post' \<and> (\<forall>x\<in>set pre'. accepted_line x) \<and> bad_type_line t"
    then have "getlines content = pre' @ [t] @ (post' @ [l] @ post)"
      using lines by simp
    moreover from a have "deserialize_lines (pre' @ [t] @ (post' @ [l] @ post))
        (CommitNode_default, [], []) =
        Inl (runtime_error (''Deserialization error: Expected type:commit, got '' @ substr t 5))"
      by (intro lines_first_bad_type) simp_all
    ultimately show "deserialize content =
        Inl (runtime_error (''Deserialization error: Expected type:commit, got '' @ substr t 5))"
      by (simp only: deserialize_Inl)
  qed
qed

theorem deserialize_file_line_without_space_witness:
  "deserialize (''type:commit'' @ [NL] @ ''file:a.txt'' @ [NL] @ ''type:blob'' @ [NL]) =
     Inl (runtime_error ''Deserialization error: Invalid file entry format in commit.'')"
  using deserialize_file_line_without_space
    [of "''type:commit'' @ [NL] @ ''file:a.txt'' @ [NL] @ ''type:blob'' @ [NL]"
        "[''type:commit'']" "''file:a.txt''" "[''type:blob'']"]
  by (simp add: starts_with_def substr_def bad_type_line_def)







text \<open>
  Claim C6, as stated, fails. A file of size 5 whose stream delivers nothing is read with
  the result \<^verbatim>\<open>true\<close>, an empty content and a warning; one whose stream delivers two bytes
  is read with the result \<^verbatim>\<open>true\<close> and no diagnostic at all.
\<close>

theorem short_read_is_not_an_error:
  "readFromFile \<lparr>fs_exists = True, fs_is_regular_file = True, stream_is_open = True,
       stream_bytes = '''', fs_file_size = 5\<rparr> = (True, '''', [WARNING_read_as_empty])
   \<and> readFromFile \<lparr>fs_exists = True, fs_is_regular_file = True, stream_is_open = True,
       stream_bytes = ''ab'', fs_file_size = 5\<rparr> = (True, ''ab'', [])"
  by (simp add: readFromFile_def)

text \<open>
  Claim C6, amended. \<^verbatim>\<open>readFromFile\<close> returns \<^verbatim>\<open>false\<close> exactly when the file does not
  exist, is not a regular file, or does not open. When it exists, is a regular file and
  opens, and the stream delivers fewer bytes than the size the file system reports, the
  result is \<^verbatim>\<open>true\<close> with the bytes read; a warning is written when no byte at all was
  read, and nothing otherwise.
\<close>

theorem readFromFile_short_read:
  "fst (readFromFile env) = (fs_exists env \<and> fs_is_regular_file env \<and> stream_is_open env)
   \<and> (fs_exists env \<and> fs_is_regular_file env \<and> stream_is_open env
        \<and> length (stream_bytes env) < fs_file_size env \<longrightarrow>
      readFromFile env =
        (True, stream_bytes env,
         if stream_bytes env = [] then [WARNING_read_as_empty] else []))"
  by (auto simp: readFromFile_def Let_def)

theorem readFromFile_short_read_witness:
  "readFromFile \<lparr>fs_exists = True, fs_is_regular_file = True, stream_is_open = True,
       stream_bytes = ''abc'', fs_file_size = 10\<rparr> = (True, ''abc'', [])"
  using readFromFile_short_read
    [of "\<lparr>fs_exists = True, fs_is_regular_file = True, stream_is_open = True,
       stream_bytes = ''abc'', fs_file_size = 10\<rparr>"]
  by simp

section \<open>Timestamps and identifiers\<close>

subsection \<open>Hashes that the examples need\<close>

lemma hash_value_newline_message:
  "Hashing_calculateHash (''commit'' @ [NL] @ ''message:a'' @ [NL] @ ''b'' @ [NL] @
      ''timestamp:2024-01-01T00:00:00'' @ [NL] @ ''tree:'' @ [NL]) = ''e3c3df32''"
proof -
  have e0: "fnv_loop 2166136261 (''commit'' @ [NL] @ ''message:a'') = 3172523352"
    by (simp add: FNV_PRIME_def)
  have e1: "fnv_loop 3172523352 ([NL] @ ''b'' @ [NL] @ ''timestamp:202'') = 2721743552"
    by (simp add: FNV_PRIME_def)
  have e2: "fnv_loop 2721743552 (''4-01-01T00:00:00'') = 1419051644"
    by (simp add: FNV_PRIME_def)
  have e3: "fnv_loop 1419051644 ([NL] @ ''tree:'' @ [NL]) = 3821264690"
    by (simp add: FNV_PRIME_def)
  have split: "''commit'' @ [NL] @ ''message:a'' @ [NL] @ ''b'' @ [NL] @
      ''timestamp:2024-01-01T00:00:00'' @ [NL] @ ''tree:'' @ [NL] =
      concat [''commit'' @ [NL] @ ''message:a'',
        [NL] @ ''b'' @ [NL] @ ''timestamp:202'',
        ''4-01-01T00:00:00'',
        [NL] @ ''tree:'' @ [NL]]"
    by simp
  have "fnv_loop FNV_OFFSET_BASIS (''commit'' @ [NL] @ ''message:a'' @ [NL] @ ''b'' @ [NL] @
      ''timestamp:2024-01-01T00:00:00'' @ [NL] @ ''tree:'' @ [NL]) = 3821264690"
    unfolding split FNV_OFFSET_BASIS_def fnv_loop_concat
    by (simp only: foldl_Cons foldl_Nil e0 e1 e2 e3)
  then show ?thesis
    by (simp add: Hashing_calculateHash_value setw_fill_def to_hex.simps hex_digit_def)
qed

lemma hash_value_first_line_message:
  "Hashing_calculateHash (''commit'' @ [NL] @ ''message:a'' @ [NL] @ ''timestamp:2024-01-01T00:00:00'' @
      [NL] @ ''tree:'' @ [NL]) = ''23f29a96''"
proof -
  have e0: "fnv_loop 2166136261 (''commit'' @ [NL] @ ''message:a'') = 3172523352"
    by (simp add: FNV_PRIME_def)
  have e1: "fnv_loop 3172523352 ([NL] @ ''timestamp:2024-'') = 1335337095"
    by (simp add: FNV_PRIME_def)
  have e2: "fnv_loop 1335337095 (''01-01T00:00:00'' @ [NL] @ ''t'') = 2999972718"
    by (simp add: FNV_PRIME_def)
  have e3: "fnv_loop 2999972718 (''ree:'' @ [NL]) = 603101846"
    by (simp add: FNV_PRIME_def)
  have split: "''commit'' @ [NL] @ ''message:a'' @ [NL] @ ''timestamp:2024-01-01T00:00:00'' @
      [NL] @ ''tree:'' @ [NL] =
      concat [''commit'' @ [NL] @ ''message:a'',
        [NL] @ ''timestamp:2024-'',
        ''01-01T00:00:00'' @ [NL] @ ''t'',
        ''ree:'' @ [NL]]"
    by simp
  have "fnv_loop FNV_OFFSET_BASIS (''commit'' @ [NL] @ ''message:a'' @ [NL] @ ''timestamp:2024-01-01T00:00:00'' @
      [NL] @ ''tree:'' @ [NL]) = 603101846"
    unfolding split FNV_OFFSET_BASIS_def fnv_loop_concat
    by (simp only: foldl_Cons foldl_Nil e0 e1 e2 e3)
  then show ?thesis
    by (simp add: Hashing_calculateHash_value setw_fill_def to_hex.simps hex_digit_def)
qed

lemma hash_value_collision_1:
  "Hashing_calculateHash (''commit'' @ [NL] @ ''message:init'' @ [NL] @
      ''timestamp:2024-01-01T18:08:59'' @ [NL] @ ''tree:'' @ [NL] @
      ''  a.txt deadbeef'' @ [NL]) = ''cb6d5ecd''"
proof -
  have e0: "fnv_loop 2166136261 (''commit'' @ [NL] @ ''message:i'') = 3038302400"
    by (simp add: FNV_PRIME_def)
  have e1: "fnv_loop 3038302400 (''nit'' @ [NL] @ ''timestamp:20'') = 4060836375"
    by (simp add: FNV_PRIME_def)
  have e2: "fnv_loop 4060836375 (''24-01-01T18:08:5'') = 3478829605"
    by (simp add: FNV_PRIME_def)
  have e3: "fnv_loop 3478829605 (''9'' @ [NL] @ ''tree:'' @ [NL] @ ''  a.txt '') = 456250149"
    by (simp add: FNV_PRIME_def)
  have e4: "fnv_loop 456250149 (''deadbeef'' @ [NL]) = 3412942541"
    by (simp add: FNV_PRIME_def)
  have split: "''commit'' @ [NL] @ ''message:init'' @ [NL] @
      ''timestamp:2024-01-01T18:08:59'' @ [NL] @ ''tree:'' @ [NL] @
      ''  a.txt deadbeef'' @ [NL] =
      concat [''commit'' @ [NL] @ ''message:i'',
        ''nit'' @ [NL] @ ''timestamp:20'',
        ''24-01-01T18:08:5'',
        ''9'' @ [NL] @ ''tree:'' @ [NL] @ ''  a.txt '',
        ''deadbeef'' @ [NL]]"
    by simp
  have "fnv_loop FNV_OFFSET_BASIS (''commit'' @ [NL] @ ''message:init'' @ [NL] @
      ''timestamp:2024-01-01T18:08:59'' @ [NL] @ ''tree:'' @ [NL] @
      ''  a.txt deadbeef'' @ [NL]) = 3412942541"
    unfolding split FNV_OFFSET_BASIS_def fnv_loop_concat
    by (simp only: foldl_Cons foldl_Nil e0 e1 e2 e3 e4)
  then show ?thesis
    by (simp add: Hashing_calculateHash_value setw_fill_def to_hex.simps hex_digit_def)
qed

lemma hash_value_collision_2:
  "Hashing_calculateHash (''commit'' @ [NL] @ ''message:init'' @ [NL] @
      ''timestamp:2024-01-02T15:51:44'' @ [NL] @ ''tree:'' @ [NL] @
      ''  a.txt deadbeef'' @ [NL]) = ''cb6d5ecd''"
proof -
  have e0: "fnv_loop 2166136261 (''commit'' @ [NL] @ ''message:i'') = 3038302400"
    by (simp add: FNV_PRIME_def)
  have e1: "fnv_loop 3038302400 (''nit'' @ [NL] @ ''timestamp:20'') = 4060836375"
    by (simp add: FNV_PRIME_def)
  have e2: "fnv_loop 4060836375 (''24-01-02T15:51:4'') = 3478829608"
    by (simp add: FNV_PRIME_def)
  have e3: "fnv_loop 3478829608 (''4'' @ [NL] @ ''tree:'' @ [NL] @ ''  a.txt '') = 456250149"
    by (simp add: FNV_PRIME_def)
  have e4: "fnv_loop 456250149 (''deadbeef'' @ [NL]) = 3412942541"
    by (simp add: FNV_PRIME_def)
  have split: "''commit'' @ [NL] @ ''message:init'' @ [NL] @
      ''timestamp:2024-01-02T15:51:44'' @ [NL] @ ''tree:'' @ [NL] @
      ''  a.txt deadbeef'' @ [NL] =
      concat [''commit'' @ [NL] @ ''message:i'',
        ''nit'' @ [NL] @ ''timestamp:20'',
        ''24-01-02T15:51:4'',
        ''4'' @ [NL] @ ''tree:'' @ [NL] @ ''  a.txt '',
        ''deadbeef'' @ [NL]]"
    by simp
  have "fnv_loop FNV_OFFSET_BASIS (''commit'' @ [NL] @ ''message:init'' @ [NL] @
      ''timestamp:2024-01-02T15:51:44'' @ [NL] @ ''tree:'' @ [NL] @
      ''  a.txt deadbeef'' @ [NL]) = 3412942541"
    unfolding split FNV_OFFSET_BASIS_def fnv_loop_concat
    by (simp only: foldl_Cons foldl_Nil e0 e1 e2 e3 e4)
  then show ?thesis
    by (simp add: Hashing_calculateHash_value setw_fill_def to_hex.simps hex_digit_def)
qed


subsection \<open>Injectivity of the accumulator\<close>

lemma FNV_PRIME_cancel: "x * FNV_PRIME = y * FNV_PRIME \<Longrightarrow> x = y"
proof -
  assume eq: "x * FNV_PRIME = y * FNV_PRIME"
  have inv: "FNV_PRIME * 899433627 = 1"
    by (simp add: FNV_PRIME_def)
  have "x = x * (FNV_PRIME * 899433627)"
    by (simp only: inv mult_1_right)
  also have "\<dots> = (x * FNV_PRIME) * 899433627"
    by (simp only: mult.assoc)
  also have "\<dots> = (y * FNV_PRIME) * 899433627"
    by (simp only: eq)
  also have "\<dots> = y * (FNV_PRIME * 899433627)"
    by (simp only: mult.assoc)
  also have "\<dots> = y"
    by (simp only: inv mult_1_right)
  finally show "x = y" .
qed

lemma xor_cancel: "(x :: 32 word) XOR b = y XOR b \<Longrightarrow> x = y"
proof -
  assume "x XOR b = y XOR b"
  then have "(x XOR b) XOR b = (y XOR b) XOR b"
    by simp
  then show "x = y"
    by (simp add: xor.assoc)
qed

lemma fnv_loop_inj: "fnv_loop h1 s = fnv_loop h2 s \<Longrightarrow> h1 = h2"
proof (induction s arbitrary: h1 h2)
  case Nil
  then show ?case by simp
next
  case (Cons c s)
  from Cons.prems have "fnv_loop ((h1 XOR of_char c) * FNV_PRIME) s =
      fnv_loop ((h2 XOR of_char c) * FNV_PRIME) s"
    by simp
  then have "(h1 XOR of_char c) * FNV_PRIME = (h2 XOR of_char c) * FNV_PRIME"
    by (rule Cons.IH)
  then have "h1 XOR of_char c = h2 XOR of_char c"
    by (rule FNV_PRIME_cancel)
  then show ?case
    by (rule xor_cancel)
qed

lemma Hashing_calculateHash_eq_iff:
  "Hashing_calculateHash s1 = Hashing_calculateHash s2 \<longleftrightarrow>
   fnv_loop FNV_OFFSET_BASIS s1 = fnv_loop FNV_OFFSET_BASIS s2"
proof
  assume "Hashing_calculateHash s1 = Hashing_calculateHash s2"
  then have "hex_value (Hashing_calculateHash s1) = hex_value (Hashing_calculateHash s2)"
    by simp
  then have "unat (fnv_loop FNV_OFFSET_BASIS s1) = unat (fnv_loop FNV_OFFSET_BASIS s2)"
    by (simp only: hex_value_Hashing_calculateHash)
  then show "fnv_loop FNV_OFFSET_BASIS s1 = fnv_loop FNV_OFFSET_BASIS s2"
    by (simp add: word_unat_eq_iff)
next
  assume "fnv_loop FNV_OFFSET_BASIS s1 = fnv_loop FNV_OFFSET_BASIS s2"
  then show "Hashing_calculateHash s1 = Hashing_calculateHash s2"
    by (simp add: Hashing_calculateHash_def)
qed

lemma contentToHash_timestamp:
  "\<exists>tail. \<forall>now. contentToHash (CommitNode_new msg parents blobs now) =
     (''commit'' @ [NL] @ ''message:'' @ msg @ [NL] @ ''timestamp:'' @ now) @ tail"
proof -
  define tail where "tail = [NL] @
     concat (map (\<lambda>parent. ''parent:'' @ parent @ [NL]) parents) @ ''tree:'' @ [NL] @
     concat (map (\<lambda>entry. ''  '' @ fst entry @ '' '' @ snd entry @ [NL]) (sortedFileBlobs blobs))"
  have "contentToHash (CommitNode_new msg parents blobs now) =
     (''commit'' @ [NL] @ ''message:'' @ msg @ [NL] @ ''timestamp:'' @ now) @ tail" for now
    by (simp add: contentToHash_def tail_def)
  then show ?thesis
    by blast
qed

lemma hash_timestamps:
  "contentToHash (CommitNode_new msg parents blobs t1) =
     contentToHash (CommitNode_new msg parents blobs t2) \<longleftrightarrow> t1 = t2"
  "hash (CommitNode_new msg parents blobs t1) = hash (CommitNode_new msg parents blobs t2) \<longleftrightarrow>
     fnv_loop FNV_OFFSET_BASIS (''commit'' @ [NL] @ ''message:'' @ msg @ [NL] @ ''timestamp:'' @ t1) =
     fnv_loop FNV_OFFSET_BASIS (''commit'' @ [NL] @ ''message:'' @ msg @ [NL] @ ''timestamp:'' @ t2)"
proof -
  from contentToHash_timestamp [of msg parents blobs] obtain tail
    where c: "\<And>now. contentToHash (CommitNode_new msg parents blobs now) =
     (''commit'' @ [NL] @ ''message:'' @ msg @ [NL] @ ''timestamp:'' @ now) @ tail"
    by blast
  show "contentToHash (CommitNode_new msg parents blobs t1) =
     contentToHash (CommitNode_new msg parents blobs t2) \<longleftrightarrow> t1 = t2"
    unfolding c by simp
  let ?p1 = "''commit'' @ [NL] @ ''message:'' @ msg @ [NL] @ ''timestamp:'' @ t1"
  let ?p2 = "''commit'' @ [NL] @ ''message:'' @ msg @ [NL] @ ''timestamp:'' @ t2"
  have "fnv_loop (fnv_loop FNV_OFFSET_BASIS ?p1) tail = fnv_loop (fnv_loop FNV_OFFSET_BASIS ?p2) tail
      \<longleftrightarrow> fnv_loop FNV_OFFSET_BASIS ?p1 = fnv_loop FNV_OFFSET_BASIS ?p2"
    by (auto dest: fnv_loop_inj)
  then show "hash (CommitNode_new msg parents blobs t1) = hash (CommitNode_new msg parents blobs t2)
     \<longleftrightarrow> fnv_loop FNV_OFFSET_BASIS ?p1 = fnv_loop FNV_OFFSET_BASIS ?p2"
    unfolding hash_CommitNode_new Hashing_calculateHash_eq_iff c fnv_loop_append .
qed

text \<open>
  Claim C8, as stated, fails: the identifier has 32 bits, and two commits that differ only
  in their timestamps can have the same one. The two timestamps below are less than a day
  apart.
\<close>

theorem timestamps_collide:
  "hash (CommitNode_new ''init'' [] [(''a.txt'', ''deadbeef'')] ''2024-01-01T18:08:59'') = ''cb6d5ecd''
   \<and> hash (CommitNode_new ''init'' [] [(''a.txt'', ''deadbeef'')] ''2024-01-02T15:51:44'') = ''cb6d5ecd''
   \<and> ''2024-01-01T18:08:59'' \<noteq> ''2024-01-02T15:51:44''"
proof -
  have "contentToHash (CommitNode_new ''init'' [] [(''a.txt'', ''deadbeef'')] ''2024-01-01T18:08:59'') =
      ''commit'' @ [NL] @ ''message:init'' @ [NL] @ ''timestamp:2024-01-01T18:08:59'' @ [NL] @
      ''tree:'' @ [NL] @ ''  a.txt deadbeef'' @ [NL]"
    by (simp add: contentToHash_def sortedFileBlobs_def)
  with hash_value_collision_1
  have 1: "hash (CommitNode_new ''init'' [] [(''a.txt'', ''deadbeef'')] ''2024-01-01T18:08:59'') = ''cb6d5ecd''"
    by (simp add: hash_CommitNode_new)
  have "contentToHash (CommitNode_new ''init'' [] [(''a.txt'', ''deadbeef'')] ''2024-01-02T15:51:44'') =
      ''commit'' @ [NL] @ ''message:init'' @ [NL] @ ''timestamp:2024-01-02T15:51:44'' @ [NL] @
      ''tree:'' @ [NL] @ ''  a.txt deadbeef'' @ [NL]"
    by (simp add: contentToHash_def sortedFileBlobs_def)
  with hash_value_collision_2
  have 2: "hash (CommitNode_new ''init'' [] [(''a.txt'', ''deadbeef'')] ''2024-01-02T15:51:44'') = ''cb6d5ecd''"
    by (simp add: hash_CommitNode_new)
  from 1 2 show ?thesis
    by simp
qed

text \<open>
  Claim C8, amended. Two commits built from the same message, parents and snapshot with
  different timestamps have different hash inputs. Their identifiers are equal exactly
  when the FNV-1a accumulators reached at the end of the timestamp are equal: the bytes
  after the timestamp are the same for both, and every step of the accumulator is
  injective.
\<close>

theorem different_timestamps:
  assumes "t1 \<noteq> t2"
  shows "contentToHash (CommitNode_new msg parents blobs t1) \<noteq>
           contentToHash (CommitNode_new msg parents blobs t2)
    \<and> (hash (CommitNode_new msg parents blobs t1) = hash (CommitNode_new msg parents blobs t2) \<longleftrightarrow>
         fnv_loop FNV_OFFSET_BASIS
           (''commit'' @ [NL] @ ''message:'' @ msg @ [NL] @ ''timestamp:'' @ t1) =
         fnv_loop FNV_OFFSET_BASIS
           (''commit'' @ [NL] @ ''message:'' @ msg @ [NL] @ ''timestamp:'' @ t2))"
  using assms hash_timestamps [of msg parents blobs t1 t2] by blast

theorem different_timestamps_witness:
  "contentToHash (CommitNode_new ''init'' [] [] ''2024-01-01T00:00:00'') \<noteq>
     contentToHash (CommitNode_new ''init'' [] [] ''2024-01-01T00:00:01'')
   \<and> (hash (CommitNode_new ''init'' [] [] ''2024-01-01T00:00:00'') =
        hash (CommitNode_new ''init'' [] [] ''2024-01-01T00:00:01'') \<longleftrightarrow>
      fnv_loop FNV_OFFSET_BASIS
        (''commit'' @ [NL] @ ''message:'' @ ''init'' @ [NL] @ ''timestamp:'' @ ''2024-01-01T00:00:00'') =
      fnv_loop FNV_OFFSET_BASIS
        (''commit'' @ [NL] @ ''message:'' @ ''init'' @ [NL] @ ''timestamp:'' @ ''2024-01-01T00:00:01''))"
  by (rule different_timestamps) simp

section \<open>Messages with newlines; recomputing the identifier\<close>

subsection \<open>The message line\<close>

lemma hash_no_NL: "NL \<notin> set (hash (CommitNode_new msg parents blobs now))"
  by (simp only: hash_CommitNode_new NL_notin_Hashing_calculateHash not_False_eq_True)

lemma splitnl_message:
  "splitnl (''message:'' @ msg) = (''message:'' @ takeWhile (\<lambda>c. c \<noteq> NL) msg) # tl (splitnl msg)"
  using splitnl_prefix [of "''message:''" msg] by (simp add: hd_splitnl)

lemma getlines_serialize_new:
  assumes "NL \<notin> set now" and "\<forall>p\<in>set parents. NL \<notin> set p"
    and "\<forall>e\<in>set blobs. NL \<notin> set (fst e) \<and> NL \<notin> set (snd e)"
  shows "getlines (serialize (CommitNode_new msg parents blobs now)) =
    [''type:commit'', ''hash:'' @ hash (CommitNode_new msg parents blobs now),
     ''message:'' @ takeWhile (\<lambda>c. c \<noteq> NL) msg] @
    tl (splitnl msg) @
    [''timestamp:'' @ now] @
    map (\<lambda>parent. ''parent:'' @ parent) parents @
    map (\<lambda>entry. ''file:'' @ fst entry @ '' '' @ snd entry) (sortedFileBlobs blobs)"
proof -
  let ?c = "CommitNode_new msg parents blobs now"
  let ?P = "map (\<lambda>parent. ''parent:'' @ parent) parents"
  let ?F = "map (\<lambda>entry. ''file:'' @ fst entry @ '' '' @ snd entry) (sortedFileBlobs blobs)"
  have 1: "splitnl ''type:commit'' = [''type:commit'']"
    by (rule splitnl_no_NL) simp
  have 2: "splitnl (''hash:'' @ hash ?c) = [''hash:'' @ hash ?c]"
    by (rule splitnl_no_NL) (simp add: hash_no_NL)
  have 4: "splitnl (''timestamp:'' @ now) = [''timestamp:'' @ now]"
    by (rule splitnl_no_NL) (simp add: assms(1))
  have 5: "concat (map splitnl ?P) = ?P"
    by (rule concat_splitnl_no_NL) (use assms(2) in auto)
  have 6: "concat (map splitnl ?F) = ?F"
    by (rule concat_splitnl_no_NL) (use assms(3) in auto)
  have "concat (map splitnl (stored_lines ?c)) =
      splitnl ''type:commit'' @ splitnl (''hash:'' @ hash ?c) @ splitnl (''message:'' @ msg) @
      splitnl (''timestamp:'' @ now) @ concat (map splitnl ?P) @ concat (map splitnl ?F)"
    unfolding stored_lines_def fields_CommitNode_new
    by (simp only: map_append concat_append list.map concat.simps append_Nil2 append_assoc)
  then show ?thesis
    unfolding getlines_serialize 1 2 4 5 6 splitnl_message by simp
qed

lemma line_message_kept:
  "deserialize_line l (c, ps, fb) = Inr (c', ps', fb') \<Longrightarrow>
   \<not> starts_with l ''message:'' \<Longrightarrow> message c' = message c"
  by (auto simp: deserialize_line_def Let_def split: if_splits option.splits)

lemma lines_message_kept:
  "deserialize_lines ls (c, ps, fb) = Inr (c', ps', fb') \<Longrightarrow>
   \<forall>l\<in>set ls. \<not> starts_with l ''message:'' \<Longrightarrow> message c' = message c"
proof (induction ls arbitrary: c ps fb)
  case Nil
  then show ?case by simp
next
  case (Cons l ls)
  from Cons.prems(1) obtain c1 ps1 fb1
    where 1: "deserialize_line l (c, ps, fb) = Inr (c1, ps1, fb1)"
      and 2: "deserialize_lines ls (c1, ps1, fb1) = Inr (c', ps', fb')"
    by (auto split: sum.splits)
  from line_message_kept [OF 1] Cons.prems(2) have "message c1 = message c"
    by simp
  moreover from Cons.IH [OF 2] Cons.prems(2) have "message c' = message c1"
    by simp
  ultimately show ?case
    by simp
qed

lemma inert_field_lines:
  "accepted_line (''timestamp:'' @ t)" "\<not> starts_with (''timestamp:'' @ t) ''message:''"
  "accepted_line (''parent:'' @ p)" "\<not> starts_with (''parent:'' @ p) ''message:''"
  "accepted_line (''file:'' @ k @ '' '' @ v)" "\<not> starts_with (''file:'' @ k @ '' '' @ v) ''message:''"
  by (simp_all add: accepted_line_def bad_type_line_def bad_file_line_def starts_with_def
      substr_def)

text \<open>
  Claim C9, as stated, fails: when the text after a newline of the message starts with
  \<open>message:\<close>, the decoder takes that line for the message. The message \<open>a\<close>, newline,
  \<open>message:b\<close> comes back as \<open>b\<close>, and the part before the first newline is \<open>a\<close>.
\<close>

theorem message_line_replaced:
  "map_sum id message
     (deserialize (serialize
        (CommitNode_new (''a'' @ [NL] @ ''message:b'') [] [] ''2024-01-01T00:00:00''))) =
     Inr ''b''
   \<and> takeWhile (\<lambda>c. c \<noteq> NL) (''a'' @ [NL] @ ''message:b'') = ''a''"
proof -
  have "getlines (serialize
      (CommitNode_new (''a'' @ [NL] @ ''message:b'') [] [] ''2024-01-01T00:00:00'')) =
    [''type:commit'',
     ''hash:'' @ hash (CommitNode_new (''a'' @ [NL] @ ''message:b'') [] [] ''2024-01-01T00:00:00''),
     ''message:a'', ''message:b'', ''timestamp:2024-01-01T00:00:00'']"
    by (simp add: getlines_serialize_new sortedFileBlobs_def)
  then show ?thesis
    by (simp add: deserialize_def deserialize_loop_lines CommitNode_default_def)
qed

text \<open>
  Claim C9, amended. The constructor and \<^verbatim>\<open>serialize\<close> accept any message and write it
  unescaped after \<open>message:\<close>. If the timestamp, the parents, the paths and the blobs have
  no newline, and no line of the message after its first one starts with \<open>message:\<close>, is a
  \<open>type:\<close> line with another value than \<open>commit\<close>, or is a \<open>file:\<close> line without a space,
  then decoding the stored form returns a commit whose message is the part of the
  original message before its first newline.
\<close>

theorem message_with_newline:
  assumes now: "NL \<notin> set now" and parents: "\<forall>p\<in>set parents. NL \<notin> set p"
    and blobs: "\<forall>e\<in>set blobs. NL \<notin> set (fst e) \<and> NL \<notin> set (snd e)"
    and rest: "\<forall>l\<in>set (tl (splitnl msg)). accepted_line l \<and> \<not> starts_with l ''message:''"
  shows "(\<exists>tail. serialize (CommitNode_new msg parents blobs now) =
            ''type:commit'' @ [NL] @ ''hash:'' @ hash (CommitNode_new msg parents blobs now) @ [NL] @
            ''message:'' @ msg @ [NL] @ tail)
    \<and> (\<exists>r. deserialize (serialize (CommitNode_new msg parents blobs now)) = Inr r
          \<and> message r = takeWhile (\<lambda>c. c \<noteq> NL) msg)"
proof
  show "\<exists>tail. serialize (CommitNode_new msg parents blobs now) =
      ''type:commit'' @ [NL] @ ''hash:'' @ hash (CommitNode_new msg parents blobs now) @ [NL] @
      ''message:'' @ msg @ [NL] @ tail"
    by (simp add: serialize_def)
next
  let ?c = "CommitNode_new msg parents blobs now"
  let ?post = "tl (splitnl msg) @ [''timestamp:'' @ now] @
    map (\<lambda>parent. ''parent:'' @ parent) parents @
    map (\<lambda>entry. ''file:'' @ fst entry @ '' '' @ snd entry) (sortedFileBlobs blobs)"
  let ?st = "(CommitNode_default\<lparr>hash := hash ?c, message := takeWhile (\<lambda>c. c \<noteq> NL) msg\<rparr>,
    [] :: string list, [] :: unordered_map)"
  have lines: "getlines (serialize ?c) =
      [''type:commit'', ''hash:'' @ hash ?c, ''message:'' @ takeWhile (\<lambda>c. c \<noteq> NL) msg] @ ?post"
    using getlines_serialize_new [OF now parents blobs] by simp
  have post: "\<forall>l\<in>set ?post. accepted_line l \<and> \<not> starts_with l ''message:''"
    using rest inert_field_lines by auto
  then have "\<forall>l\<in>set ?post. accepted_line l"
    by blast
  from lines_accepted [OF this] obtain st' where st': "deserialize_lines ?post ?st = Inr st'"
    by blast
  obtain c' ps' fb' where "st' = (c', ps', fb')"
    by (cases st')
  with st' have run: "deserialize_lines ?post ?st = Inr (c', ps', fb')"
    by simp
  from post have "\<forall>l\<in>set ?post. \<not> starts_with l ''message:''"
    by blast
  with lines_message_kept [OF run] have m: "message c' = takeWhile (\<lambda>c. c \<noteq> NL) msg"
    by simp
  have "deserialize_lines
      [''type:commit'', ''hash:'' @ hash ?c, ''message:'' @ takeWhile (\<lambda>c. c \<noteq> NL) msg]
      (CommitNode_default, [], []) = Inr ?st"
    by simp
  then have "deserialize_lines (getlines (serialize ?c)) (CommitNode_default, [], []) =
      deserialize_lines ?post ?st"
    unfolding lines by (simp only: deserialize_lines_append sum.case)
  with run have "deserialize (serialize ?c) = Inr (c'\<lparr>parentHashes := ps', fileBlobs := fb'\<rparr>)"
    by (simp add: deserialize_Inr)
  with m show "\<exists>r. deserialize (serialize ?c) = Inr r \<and> message r = takeWhile (\<lambda>c. c \<noteq> NL) msg"
    by simp
qed

theorem message_with_newline_witness:
  "(\<exists>tail. serialize (CommitNode_new (''fix'' @ [NL] @ ''details'') [''11111111'']
        [(''a.txt'', ''deadbeef'')] ''2024-01-01T00:00:00'') =
      ''type:commit'' @ [NL] @ ''hash:'' @ hash (CommitNode_new (''fix'' @ [NL] @ ''details'')
        [''11111111''] [(''a.txt'', ''deadbeef'')] ''2024-01-01T00:00:00'') @ [NL] @
      ''message:'' @ (''fix'' @ [NL] @ ''details'') @ [NL] @ tail)
   \<and> (\<exists>r. deserialize (serialize (CommitNode_new (''fix'' @ [NL] @ ''details'') [''11111111'']
        [(''a.txt'', ''deadbeef'')] ''2024-01-01T00:00:00'')) = Inr r \<and> message r = ''fix'')"
  using message_with_newline [of "''2024-01-01T00:00:00''" "[''11111111'']"
      "[(''a.txt'', ''deadbeef'')]" "''fix'' @ [NL] @ ''details''"]
  by (simp add: accepted_line_def bad_type_line_def bad_file_line_def starts_with_def)

lemma contentToHash_cong:
  "message r = message c \<Longrightarrow> timestamp r = timestamp c \<Longrightarrow> parentHashes r = parentHashes c \<Longrightarrow>
   sortedFileBlobs (fileBlobs r) = sortedFileBlobs (fileBlobs c) \<Longrightarrow>
   contentToHash r = contentToHash c"
  by (simp add: contentToHash_def)

text \<open>
  Claim C3, as stated, fails in its second part: the constructor accepts a message with a
  newline, and the decoder reads back only its first line. The identifier stored for the
  message \<open>a\<close>, newline, \<open>b\<close> is \<open>e3c3df32\<close>; recomputed from the decoded commit it is
  \<open>23f29a96\<close>.
\<close>

theorem identifier_not_recomputed:
  "hash (CommitNode_new (''a'' @ [NL] @ ''b'') [] [] ''2024-01-01T00:00:00'') = ''e3c3df32''
   \<and> map_sum id calculateHash
       (deserialize (serialize (CommitNode_new (''a'' @ [NL] @ ''b'') [] [] ''2024-01-01T00:00:00''))) =
     Inr ''23f29a96''"
proof -
  let ?c = "CommitNode_new (''a'' @ [NL] @ ''b'') [] [] ''2024-01-01T00:00:00''"
  have "contentToHash ?c = ''commit'' @ [NL] @ ''message:a'' @ [NL] @ ''b'' @ [NL] @
      ''timestamp:2024-01-01T00:00:00'' @ [NL] @ ''tree:'' @ [NL]"
    by (simp add: contentToHash_def sortedFileBlobs_def)
  with hash_value_newline_message have h: "hash ?c = ''e3c3df32''"
    by (simp add: hash_CommitNode_new)
  have "getlines (serialize ?c) =
    [''type:commit'', ''hash:'' @ hash ?c, ''message:a'', ''b'', ''timestamp:2024-01-01T00:00:00'']"
    by (simp add: getlines_serialize_new sortedFileBlobs_def)
  then have d: "deserialize (serialize ?c) =
      Inr \<lparr>hash = hash ?c, parentHashes = [], message = ''a'',
           timestamp = ''2024-01-01T00:00:00'', fileBlobs = []\<rparr>"
    by (simp add: deserialize_def deserialize_loop_lines CommitNode_default_def
        deserialize_line_def starts_with_def substr_def)
  have "contentToHash \<lparr>hash = hash ?c, parentHashes = [], message = ''a'',
           timestamp = ''2024-01-01T00:00:00'', fileBlobs = []\<rparr> =
      ''commit'' @ [NL] @ ''message:a'' @ [NL] @ ''timestamp:2024-01-01T00:00:00'' @ [NL] @
      ''tree:'' @ [NL]"
    by (simp add: contentToHash_def sortedFileBlobs_def)
  with hash_value_first_line_message
  have "calculateHash \<lparr>hash = hash ?c, parentHashes = [], message = ''a'',
           timestamp = ''2024-01-01T00:00:00'', fileBlobs = []\<rparr> = ''23f29a96''"
    by (simp add: calculateHash_def)
  with h d show ?thesis
    by simp
qed

text \<open>
  Claim C3, amended. The identifier of every commit the constructor builds is the
  fingerprint of its hash input. If moreover the constructed commit is well formed (no
  newline in message, timestamp, parents, paths and blobs, no space in a path, distinct
  paths), then decoding its stored form and recomputing the fingerprint of the decoded
  commit gives the identifier written in the \<open>hash:\<close> line.
\<close>

theorem identifier_is_fingerprint:
  "hash (CommitNode_new msg parents blobs now) =
     Hashing_calculateHash (contentToHash (CommitNode_new msg parents blobs now))
   \<and> (well_formed (CommitNode_new msg parents blobs now) \<longrightarrow>
        map_sum id calculateHash (deserialize (serialize (CommitNode_new msg parents blobs now))) =
          Inr (hash (CommitNode_new msg parents blobs now)))"
proof (intro conjI impI)
  show "hash (CommitNode_new msg parents blobs now) =
      Hashing_calculateHash (contentToHash (CommitNode_new msg parents blobs now))"
    by (rule hash_CommitNode_new)
next
  let ?c = "CommitNode_new msg parents blobs now"
  let ?r = "\<lparr>hash = hash ?c, parentHashes = parentHashes ?c, message = message ?c,
      timestamp = timestamp ?c, fileBlobs = sortedFileBlobs (fileBlobs ?c)\<rparr>"
  assume wf: "well_formed ?c"
  have "contentToHash ?r = contentToHash ?c"
    by (rule contentToHash_cong) (simp_all add: sortedFileBlobs_idem)
  then have "calculateHash ?r = hash ?c"
    by (simp only: calculateHash_def hash_CommitNode_new)
  then show "map_sum id calculateHash (deserialize (serialize ?c)) = Inr (hash ?c)"
    by (simp add: deserialize_serialize [OF wf hash_no_NL])
qed

theorem identifier_is_fingerprint_witness:
  "map_sum id calculateHash
     (deserialize (serialize (CommitNode_new ''init'' [''11111111'']
        [(''b.txt'', ''cafebabe''), (''a.txt'', ''deadbeef'')] ''2024-01-01T00:00:00''))) =
   Inr (hash (CommitNode_new ''init'' [''11111111'']
        [(''b.txt'', ''cafebabe''), (''a.txt'', ''deadbeef'')] ''2024-01-01T00:00:00''))"
  using identifier_is_fingerprint [of "''init''" "[''11111111'']"
      "[(''b.txt'', ''cafebabe''), (''a.txt'', ''deadbeef'')]" "''2024-01-01T00:00:00''"]
  by (simp add: well_formed_def well_formed_entry_def)

end
